theory Spec2Isabelle
  imports Complex_Main "HOL-Library.Sublist"
begin

section \<open>Strings of the speech service\<close>

text \<open>
  A Python \<open>str\<close> is a sequence of Unicode code points, and \<open>len\<close>, indexing and slicing
  count code points. The model therefore takes a string to be a list of code points
  (natural numbers); \<open>s[:i]\<close> is \<open>take i s\<close> and \<open>s[i:]\<close> is \<open>drop i s\<close>.
\<close>

type_synonym ustr = "nat list"

text \<open>\<open>str.isspace\<close> and the class \<open>\s\<close> of \<open>re\<close> hold of the same 29 code points.\<close>

definition py_isspace :: "nat \<Rightarrow> bool" where
  "py_isspace c \<longleftrightarrow>
     (9 \<le> c \<and> c \<le> 13) \<or> (28 \<le> c \<and> c \<le> 32) \<or> c = 133 \<or> c = 160 \<or> c = 5760 \<or>
     (8192 \<le> c \<and> c \<le> 8202) \<or> c = 8232 \<or> c = 8233 \<or> c = 8239 \<or> c = 8287 \<or> c = 12288"

text \<open>\<open>s.strip(chars)\<close>: drop the characters of a class from both ends.\<close>

definition strip_by :: "('a \<Rightarrow> bool) \<Rightarrow> 'a list \<Rightarrow> 'a list" where
  "strip_by P s = rev (dropWhile P (rev (dropWhile P s)))"

definition py_strip :: "ustr \<Rightarrow> ustr" where
  "py_strip = strip_by py_isspace"

text \<open>
  \<open>str.lower\<close>. The case table of the interpreter is not part of the repository. The model
  is exact on ASCII and on the two code points outside ASCII whose lower case contains an
  ASCII letter (U+0130, which becomes \<open>i\<close> followed by U+0307, and the Kelvin sign U+212A,
  which becomes \<open>k\<close>); every other code point is left as it is. The command table and the
  question cues hold ASCII lower-case letters and uncased CJK ideographs only, so a
  comparison with one of them comes out as in the interpreter.
\<close>

definition lower_cp :: "nat \<Rightarrow> ustr" where
  "lower_cp c =
     (if 65 \<le> c \<and> c \<le> 90 then [c + 32]
      else if c = 304 then [105, 775]
      else if c = 8490 then [107]
      else [c])"

definition py_lower :: "ustr \<Rightarrow> ustr" where
  "py_lower s = concat (map lower_cp s)"

text \<open>\<open>s.startswith(w)\<close>, and the position of the leftmost match of an alternation of words.\<close>

fun starts_with :: "'a list \<Rightarrow> 'a list \<Rightarrow> bool" where
  "starts_with s [] = True"
| "starts_with [] (w # ws) = False"
| "starts_with (c # s) (w # ws) = (c = w \<and> starts_with s ws)"

fun search_any :: "'a list list \<Rightarrow> 'a list \<Rightarrow> nat option" where
  "search_any ws [] = None"
| "search_any ws (c # s) =
     (if list_ex (starts_with (c # s)) ws then Some 0
      else map_option Suc (search_any ws s))"

section \<open>Diff engine\<close>

text \<open>
  \<open>_common_prefix_len\<close>: the \<open>while\<close> loop over the index \<open>i\<close>, with \<open>n = min(len(a), len(b))\<close>.
\<close>

function cpl_loop :: "'a list \<Rightarrow> 'a list \<Rightarrow> nat \<Rightarrow> nat" where
  "cpl_loop a b i =
     (if i < min (length a) (length b) \<and> a ! i = b ! i then cpl_loop a b (Suc i) else i)"
  by pat_completeness auto
termination
  by (relation "measure (\<lambda>(a, b, i). min (length a) (length b) - i)") auto

definition common_prefix_len :: "'a list \<Rightarrow> 'a list \<Rightarrow> nat" where
  "common_prefix_len a b = cpl_loop a b 0"

declare cpl_loop.simps [simp del]

text \<open>
  The three delta fields as \<open>Service.handle\<close> computes them, on a partial and on a final
  emission alike: \<open>cpl = _common_prefix_len(prev, text)\<close>, \<open>delta_from = cpl\<close>,
  \<open>delta_delete = len(prev) - cpl\<close>, \<open>delta_insert = text[cpl:]\<close>, here as the triple
  \<open>(from, delete, insert)\<close>. (The response carries the two numbers through \<open>str\<close>.)
\<close>

definition diff :: "ustr \<Rightarrow> ustr \<Rightarrow> int \<times> int \<times> ustr" where
  "diff prev text =
     (let cpl = common_prefix_len prev text
      in (int cpl, int (length prev) - int cpl, drop cpl text))"

section \<open>Partial stabilizer: the boundary prefix\<close>

definition boundary_chars :: "nat list" where
  "boundary_chars =
     [32, 9, 10, 13, 44, 46, 33, 63, 59, 58, 65292, 12290, 65281, 65311, 65307, 65306]"

text \<open>
  \<open>_boundary_prefix\<close> scans from the last character towards the first and returns the text
  up to and including the first boundary character it meets, or the empty string.
\<close>

definition boundary_prefix :: "ustr \<Rightarrow> ustr" where
  "boundary_prefix text = rev (dropWhile (\<lambda>ch. ch \<notin> set boundary_chars) (rev text))"

section \<open>Text normalizer\<close>

definition is_cjk :: "nat \<Rightarrow> bool" where
  "is_cjk c \<longleftrightarrow> 19968 \<le> c \<and> c \<le> 40959"

definition is_ascii_alnum :: "nat \<Rightarrow> bool" where
  "is_ascii_alnum c \<longleftrightarrow> (48 \<le> c \<and> c \<le> 57) \<or> (65 \<le> c \<and> c \<le> 90) \<or> (97 \<le> c \<and> c \<le> 122)"

text \<open>
  \<open>_RE_CJK_ASCII.sub\<close> and \<open>_RE_ASCII_CJK.sub\<close> with the replacement \<open>\1 \2\<close>: matches are
  found left to right and do not overlap, so a match consumes both of its characters.
\<close>

fun re_cjk_ascii_sub :: "ustr \<Rightarrow> ustr" where
  "re_cjk_ascii_sub (a # b # s) =
     (if is_cjk a \<and> is_ascii_alnum b then a # 32 # b # re_cjk_ascii_sub s
      else a # re_cjk_ascii_sub (b # s))"
| "re_cjk_ascii_sub s = s"

fun re_ascii_cjk_sub :: "ustr \<Rightarrow> ustr" where
  "re_ascii_cjk_sub (a # b # s) =
     (if is_ascii_alnum a \<and> is_cjk b then a # 32 # b # re_ascii_cjk_sub s
      else a # re_ascii_cjk_sub (b # s))"
| "re_ascii_cjk_sub s = s"

definition normalize_mixed_spacing :: "ustr \<Rightarrow> ustr" where
  "normalize_mixed_spacing text = re_ascii_cjk_sub (re_cjk_ascii_sub text)"

text \<open>The class of \<open>_RE_END_PUNCT\<close> and \<open>_RE_TRAILING_PUNCT\<close>: \<open>. ! ?\<close>, U+3002, U+FF01, U+FF1F, U+2026.\<close>

definition is_end_punct :: "nat \<Rightarrow> bool" where
  "is_end_punct c \<longleftrightarrow> c = 46 \<or> c = 33 \<or> c = 63 \<or> c = 12290 \<or> c = 65281 \<or> c = 65311 \<or> c = 8230"

definition strip_punct_run :: "ustr \<Rightarrow> ustr" where
  "strip_punct_run t = rev (dropWhile is_end_punct (rev t))"

text \<open>
  \<open>_RE_TRAILING_PUNCT.sub("", t)\<close> removes the run of closing punctuation that ends at \<open>$\<close>.
  In \<open>re\<close>, \<open>$\<close> also matches just before a newline that ends the string, so a run in
  front of a final newline is removed as well and the newline stays.
\<close>

definition re_trailing_punct_sub :: "ustr \<Rightarrow> ustr" where
  "re_trailing_punct_sub t =
     (if t \<noteq> [] \<and> last t = 10 then strip_punct_run (butlast t) @ [10] else strip_punct_run t)"

definition re_end_punct_search :: "ustr \<Rightarrow> bool" where
  "re_end_punct_search t =
     (let u = (if t \<noteq> [] \<and> last t = 10 then butlast t else t)
      in u \<noteq> [] \<and> is_end_punct (last u))"

definition has_cjk :: "ustr \<Rightarrow> bool" where
  "has_cjk t = list_ex is_cjk t"

text \<open>\<open>_RE_CN_COMMA\<close>: the full-width comma U+FF0C or the ASCII comma.\<close>

definition has_comma :: "ustr \<Rightarrow> bool" where
  "has_comma t = list_ex (\<lambda>c. c = 65292 \<or> c = 44) t"

text \<open>The fourteen clause connectors of \<open>_RE_CN_CONNECTOR\<close>, in the order of the pattern.\<close>

definition cn_connectors :: "ustr list" where
  "cn_connectors =
     [[20294, 26159], [19981, 36807], [28982, 21518], [25152, 20197], [22240, 27492],
      [32780, 19988], [24182, 19988], [21516, 26102], [21478, 22806], [22240, 20026],
      [22914, 26524], [34429, 28982], [25509, 30528], [38543, 21518]]"

definition maybe_insert_cn_comma :: "ustr \<Rightarrow> ustr" where
  "maybe_insert_cn_comma text =
     (if text = [] then text
      else if \<not> has_cjk text then text
      else if has_comma text then text
      else if length text < 14 then text
      else (case search_any cn_connectors text of
              None \<Rightarrow> text
            | Some idx \<Rightarrow>
                if idx \<le> 1 then text else take idx text @ [65292] @ drop idx text))"

text \<open>
  The class \<open>\w\<close> of \<open>re\<close> on a \<open>str\<close> is the alphanumeric code points of the Unicode
  database and the underscore. The model is exact below 128 and on the ideographs
  U+4E00 to U+9FFF; of the other code points it takes the white space and the punctuation
  the service names as non-word characters and the rest as word characters. It is read
  at one place only, the \<open>\b\<close> that closes an English question cue.
\<close>

definition is_word_char :: "nat \<Rightarrow> bool" where
  "is_word_char c \<longleftrightarrow>
     is_ascii_alnum c \<or> c = 95 \<or>
     (128 \<le> c \<and> \<not> py_isspace c \<and> \<not> is_end_punct c \<and> c \<notin> {65292, 65307, 65306})"

text \<open>
  The cues of \<open>_looks_like_question\<close>. A pattern under \<open>re.match\<close> with \<open>^\<close> asks for a
  prefix; the optional group after U+54EA can match the empty string, so that alternative
  is the one ideograph.
\<close>

definition cn_question_anywhere :: "ustr list" where
  "cn_question_anywhere =
     [[26159, 19981, 26159], [26159, 21542], [33021, 19981, 33021], [21487, 19981, 21487, 20197],
      [21487, 20197, 21527], [35201, 19981, 35201], [38656, 19981, 38656, 35201],
      [26377, 27809, 26377]]"

definition cn_question_start :: "ustr list" where
  "cn_question_start =
     [[24590, 20040], [20026, 20160, 20040], [20026, 21861], [22810, 23569], [20960], [21738],
      [35841], [21861], [20160, 20040], [20309, 26102], [20160, 20040, 26102, 20505]]"

definition en_question_start :: "ustr list" where
  "en_question_start =
     [[99, 97, 110], [99, 111, 117, 108, 100], [119, 111, 117, 108, 100],
      [115, 104, 111, 117, 108, 100], [100, 111], [100, 111, 101, 115], [100, 105, 100],
      [105, 115], [97, 114, 101], [97, 109], [119, 97, 115], [119, 101, 114, 101],
      [119, 104, 97, 116], [119, 104, 121], [104, 111, 119], [119, 104, 101, 110],
      [119, 104, 101, 114, 101], [119, 104, 105, 99, 104], [119, 104, 111]]"

text \<open>\<open>(U+5417|U+4E48)\s*$\<close>: one of the two particles, then white space up to the end.\<close>

definition ends_with_particle :: "ustr \<Rightarrow> bool" where
  "ends_with_particle t =
     (case dropWhile py_isspace (rev t) of [] \<Rightarrow> False | c # _ \<Rightarrow> c = 21527 \<or> c = 20040)"

text \<open>\<open>^(word)\b\<close>: the word is a prefix and is followed by the end or by a non-word character.\<close>

definition word_then_boundary :: "ustr \<Rightarrow> ustr \<Rightarrow> bool" where
  "word_then_boundary s w \<longleftrightarrow>
     starts_with s w \<and> (length s = length w \<or> \<not> is_word_char (s ! length w))"

definition looks_like_question :: "ustr \<Rightarrow> bool" where
  "looks_like_question text =
     (let t = py_strip text in
      if t = [] then False
      else let t = py_strip (re_trailing_punct_sub t) in
        if t = [] then False
        else let lower = py_lower t in
          if ends_with_particle t then True
          else if search_any cn_question_anywhere t \<noteq> None then True
          else if list_ex (starts_with t) cn_question_start then True
          else if list_ex (word_then_boundary lower) en_question_start then True
          else False)"

definition apply_tone_punctuation :: "ustr \<Rightarrow> ustr" where
  "apply_tone_punctuation text =
     (let t = py_strip text in
      if t = [] then t
      else let cjk = has_cjk t; base = py_strip (re_trailing_punct_sub t) in
        if base = [] then t
        else let base = maybe_insert_cn_comma base in
          if looks_like_question base then base @ (if cjk then [65311] else [63])
          else if re_end_punct_search t then
            (if cjk \<and> t \<noteq> [] \<and> last t = 46 then base @ [12290] else t)
          else base @ (if cjk then [12290] else [46]))"

text \<open>
  The normalizer of a finalized text that is not a command, as \<open>Service.handle\<close> applies
  it: mixed-language spacing, then tone and punctuation repair.
\<close>

definition normalize_final :: "ustr \<Rightarrow> ustr" where
  "normalize_final text = apply_tone_punctuation (normalize_mixed_spacing text)"

section \<open>Command interpreter\<close>

datatype action =
    Insert ustr
  | DeleteBackward int
  | DeleteBackwardWord int
  | DeleteBackwardSentence int
  | SystemUndo
  | SystemRedo
  | Clear
  | SetComposition ustr

text \<open>
  \<open>_clean_command_text\<close>: \<open>text.strip()\<close>, then \<open>.strip(chars)\<close> with the sixteen characters
  CR, LF, TAB, space, \<open>, . ! ? ; :\<close> and their full-width forms.
\<close>

definition command_strip_chars :: "nat list" where
  "command_strip_chars =
     [13, 10, 9, 32, 44, 46, 33, 63, 59, 58, 65292, 12290, 65281, 65311, 65307, 65306]"

definition clean_command_text :: "ustr \<Rightarrow> ustr" where
  "clean_command_text text = strip_by (\<lambda>c. c \<in> set command_strip_chars) (py_strip text)"

text \<open>The class \<open>[\s,\.\!\?;:\uff0c\u3002\uff01\uff1f\uff1b\uff1a]\<close> that \<open>_command_key\<close> deletes.\<close>

definition is_key_noise :: "nat \<Rightarrow> bool" where
  "is_key_noise c \<longleftrightarrow>
     py_isspace c \<or> c \<in> set [44, 46, 33, 63, 59, 58, 65292, 12290, 65281, 65311, 65307, 65306]"

definition command_key :: "ustr \<Rightarrow> ustr" where
  "command_key text =
     (let t = py_lower (clean_command_text text)
      in filter (\<lambda>c. \<not> is_key_noise c) t)"

text \<open>The three echoed prompt phrases whose keys make up \<open>_SUPPRESSED_KEYS\<close>.\<close>

definition suppressed_phrases :: "ustr list" where
  "suppressed_phrases =
     [[35831, 20248, 20808, 20351, 29992, 31616, 20307, 20013, 25991, 26631, 28857, 19982,
       34920, 36798, 65292, 20445, 30041, 33521, 25991, 21333, 35789],
      [35831, 20351, 29992, 31616, 20307, 20013, 25991, 26631, 28857, 19982, 34920, 36798,
       65292, 20445, 30041, 33521, 25991, 21333, 35789],
      [35831, 20248, 20808, 20351, 29992, 31616, 20307, 20013, 25991, 26631, 28857, 19982,
       34920, 36798, 65292, 20445, 30041, 33521, 25991, 21333, 35789, 47, 32553, 20889,
       21407, 26679]]"

definition SUPPRESSED_KEYS :: "ustr set" where
  "SUPPRESSED_KEYS = set (map command_key suppressed_phrases)"

definition is_suppressed_phrase :: "ustr \<Rightarrow> bool" where
  "is_suppressed_phrase text \<longleftrightarrow> command_key text \<in> SUPPRESSED_KEYS"

text \<open>\<open>punct_map\<close>: six Chinese and six English names of punctuation marks.\<close>

definition punct_map :: "(ustr \<times> ustr) list" where
  "punct_map =
     [([36887, 21495], [65292]), ([21477, 21495], [12290]), ([38382, 21495], [65311]),
      ([24863, 21497, 21495], [65281]), ([20882, 21495], [65306]), ([20998, 21495], [65307]),
      ([99, 111, 109, 109, 97], [44]), ([112, 101, 114, 105, 111, 100], [46]),
      ([113, 117, 101, 115, 116, 105, 111, 110, 32, 109, 97, 114, 107], [63]),
      ([101, 120, 99, 108, 97, 109, 97, 116, 105, 111, 110, 32, 109, 97, 114, 107], [33]),
      ([99, 111, 108, 111, 110], [58]), ([115, 101, 109, 105, 99, 111, 108, 111, 110], [59])]"

text \<open>
  The tuples of \<open>_command_actions\<close>, in the order of its \<open>if\<close> chain: line break, space,
  backspace, delete word, delete sentence, undo, redo, clear.
\<close>

definition newline_phrases :: "ustr list" where
  "newline_phrases =
     [[25442, 34892], [22238, 36710], [19979, 19968, 34892],
      [110, 101, 119, 32, 108, 105, 110, 101], [110, 101, 119, 108, 105, 110, 101],
      [101, 110, 116, 101, 114]]"

definition space_phrases :: "ustr list" where
  "space_phrases = [[31354, 26684], [115, 112, 97, 99, 101]]"

definition backspace_phrases :: "ustr list" where
  "backspace_phrases =
     [[21024, 38500], [36864, 26684], [98, 97, 99, 107, 115, 112, 97, 99, 101],
      [100, 101, 108, 101, 116, 101]]"

definition delete_word_phrases :: "ustr list" where
  "delete_word_phrases =
     [[21024, 38500, 19968, 20010, 35789], [21024, 38500, 19978, 19968, 20010, 35789],
      [100, 101, 108, 101, 116, 101, 32, 119, 111, 114, 100],
      [100, 101, 108, 101, 116, 101, 32, 108, 97, 115, 116, 32, 119, 111, 114, 100]]"

definition delete_sentence_phrases :: "ustr list" where
  "delete_sentence_phrases =
     [[21024, 38500, 19968, 21477], [21024, 38500, 19978, 19968, 21477],
      [100, 101, 108, 101, 116, 101, 32, 115, 101, 110, 116, 101, 110, 99, 101],
      [100, 101, 108, 101, 116, 101, 32, 108, 97, 115, 116, 32, 115, 101, 110, 116, 101, 110,
       99, 101]]"

definition undo_phrases :: "ustr list" where
  "undo_phrases = [[25764, 38144], [117, 110, 100, 111]]"

definition redo_phrases :: "ustr list" where
  "redo_phrases = [[37325, 20570], [114, 101, 100, 111]]"

definition clear_phrases :: "ustr list" where
  "clear_phrases = [[28165, 31354], [28165, 38500], [99, 108, 101, 97, 114]]"

definition command_actions :: "ustr \<Rightarrow> action list option" where
  "command_actions text =
     (let t = py_lower (clean_command_text text) in
      if t = [] then None
      else if is_suppressed_phrase t then Some []
      else if t \<in> set newline_phrases then Some [Insert [10]]
      else if t \<in> set space_phrases then Some [Insert [32]]
      else if t \<in> set backspace_phrases then Some [DeleteBackward 1]
      else if t \<in> set delete_word_phrases then Some [DeleteBackwardWord 1]
      else if t \<in> set delete_sentence_phrases then Some [DeleteBackwardSentence 1]
      else if t \<in> set undo_phrases then Some [SystemUndo]
      else if t \<in> set redo_phrases then Some [SystemRedo]
      else if t \<in> set clear_phrases then Some [Clear]
      else (case map_of punct_map t of
              Some p \<Rightarrow> Some [Insert p]
            | None \<Rightarrow> None))"

section \<open>Action composer\<close>

datatype kind = KNone | KPartial | KFinal

definition compose_actions :: "kind \<Rightarrow> ustr \<Rightarrow> action list \<Rightarrow> action list" where
  "compose_actions k text actions =
     (if k = KPartial then [SetComposition text] else actions)"

section \<open>Stream session\<close>

text \<open>
  \<open>StreamSession\<close>, with samples of any type \<open>'a\<close> (the service holds 32-bit floats). The
  creation time is left out. The \<open>EnergyVAD\<close> of a session decides on a frame from its
  root mean square, a floating-point computation: the decision is a parameter
  \<open>is_speech\<close> of the functions below.
\<close>

record 'a stream_session =
  sample_rate_hz :: int
  language :: "ustr option"
  prompt :: "ustr option"
  buffer_f32 :: "'a list"
  speech_frames :: int
  silence_frames :: int
  last_emitted_text :: ustr
  segments_text :: ustr
  partial_interval_ms :: int
  max_partial_context_s :: int
  min_partial_speech_ms :: int
  last_partial_samples :: int
  committed_prefix :: ustr
  last_prefix_candidate :: ustr
  prefix_streak :: int
  frame_ms :: int
  end_silence_ms :: int

text \<open>
  The session \<open>stream_start\<close> constructs: the seven values it passes, the defaults of the
  dataclass for the rest (\<open>frame_ms\<close> is never passed and stays 30), an empty buffer.
\<close>

definition new_session ::
  "int \<Rightarrow> ustr option \<Rightarrow> ustr option \<Rightarrow> int \<Rightarrow> int \<Rightarrow> int \<Rightarrow> int \<Rightarrow> 'a stream_session" where
  "new_session rate lang prm interval context min_speech end_silence =
     \<lparr>sample_rate_hz = rate, language = lang, prompt = prm, buffer_f32 = [],
      speech_frames = 0, silence_frames = 0, last_emitted_text = [], segments_text = [],
      partial_interval_ms = interval, max_partial_context_s = context,
      min_partial_speech_ms = min_speech, last_partial_samples = 0,
      committed_prefix = [], last_prefix_candidate = [], prefix_streak = 0,
      frame_ms = 30, end_silence_ms = end_silence\<rparr>"

definition reset_current_utterance :: "'a stream_session \<Rightarrow> 'a stream_session" where
  "reset_current_utterance s =
     s\<lparr>buffer_f32 := [], speech_frames := 0, silence_frames := 0, last_emitted_text := [],
       last_partial_samples := 0, committed_prefix := [], last_prefix_candidate := [],
       prefix_streak := 0\<rparr>"

text \<open>
  \<open>int(rate * (ms / 1000.0))\<close>, which gives the frame length and the partial interval in
  samples. \<open>int\<close> truncates towards zero. The quotient is taken in exact arithmetic here;
  the rounding of the two floating-point operations is not modelled.
\<close>

definition ms_to_samples :: "int \<Rightarrow> int \<Rightarrow> int" where
  "ms_to_samples rate ms =
     (let n = rate * ms in if 0 \<le> n then n div 1000 else - ((- n) div 1000))"

text \<open>\<open>a.reshape((n_frames, frame_len))\<close>: consecutive rows of \<open>frame_len\<close> samples.\<close>

fun reshape :: "nat \<Rightarrow> nat \<Rightarrow> 'a list \<Rightarrow> 'a list list" where
  "reshape 0 frame_len a = []"
| "reshape (Suc n) frame_len a = take frame_len a # reshape n frame_len (drop frame_len a)"

text \<open>
  The \<open>for\<close> loop of \<open>push_audio\<close> over the frames, carrying the local \<open>endpoint\<close> and the
  session whose two counters it updates.
\<close>

fun vad_loop ::
  "('a list \<Rightarrow> bool) \<Rightarrow> 'a list list \<Rightarrow> bool \<Rightarrow> 'a stream_session \<Rightarrow> bool \<times> 'a stream_session" where
  "vad_loop is_speech [] endpoint s = (endpoint, s)"
| "vad_loop is_speech (frame # frames) endpoint s =
     (if is_speech frame then
        vad_loop is_speech frames endpoint
          (s\<lparr>speech_frames := speech_frames s + 1, silence_frames := 0\<rparr>)
      else
        let s = s\<lparr>silence_frames := silence_frames s + 1\<rparr> in
        if speech_frames s > 0 \<and> silence_frames s * frame_ms s \<ge> end_silence_ms s
        then vad_loop is_speech frames True s
        else vad_loop is_speech frames endpoint s)"

definition push_audio ::
  "('a list \<Rightarrow> bool) \<Rightarrow> 'a list \<Rightarrow> 'a stream_session \<Rightarrow> (bool \<times> int \<times> int) \<times> 'a stream_session" where
  "push_audio is_speech audio_f32 s0 =
     (if audio_f32 = [] then ((False, speech_frames s0, silence_frames s0), s0)
      else
        let s = s0\<lparr>buffer_f32 := buffer_f32 s0 @ audio_f32\<rparr>;
            frame_len = ms_to_samples (sample_rate_hz s) (frame_ms s)
        in
        if frame_len \<le> 0 then ((False, speech_frames s, silence_frames s), s)
        else
          let n_frames = int (length audio_f32) div frame_len in
          if n_frames \<le> 0 then ((False, speech_frames s, silence_frames s), s)
          else
            let start = int (length audio_f32) - n_frames * frame_len;
                frames = reshape (nat n_frames) (nat frame_len) (drop (nat start) audio_f32);
                (endpoint, s) = vad_loop is_speech frames False s
            in ((endpoint, speech_frames s, silence_frames s), s))"

section \<open>Service: requests and responses\<close>

text \<open>
  Every failure of \<open>Service.handle\<close> is an error response. The three messages the handler
  writes itself are constructors; \<open>Raised\<close> carries the message of an exception caught at
  the handler's \<open>except\<close>.
\<close>

datatype error = UnknownSessionId | UnsupportedFormat | MissingAudioB64 | Raised ustr

datatype 'r response = Ok 'r | Err error

text \<open>
  The transcription engine is outside the model: \<open>engine audio rate language prompt\<close> is
  \<open>Inr\<close> of the text \<open>self.engine.transcribe\<close> returns, or \<open>Inl\<close> of the message of the
  exception it raises.
\<close>

type_synonym 'a engine = "'a list \<Rightarrow> int \<Rightarrow> ustr option \<Rightarrow> ustr option \<Rightarrow> ustr + ustr"

text \<open>The result of a \<open>stream_push\<close>; the numbers and flags are kept as such, not as strings.\<close>

record push_result =
  r_session_id :: ustr
  r_endpoint :: bool
  r_speech_frames :: int
  r_silence_frames :: int
  r_text :: ustr
  r_final :: bool
  r_kind :: kind
  r_committed_text :: ustr
  r_actions :: "action list"
  r_stable_prefix :: ustr
  r_unstable_suffix :: ustr
  r_delta_from :: int
  r_delta_delete :: int
  r_delta_insert :: ustr

record finalize_result =
  f_session_id :: ustr
  f_text :: ustr
  f_actions :: "action list"



type_synonym 'a sessions = "ustr \<rightharpoonup> 'a stream_session"

text \<open>\<open>if not session_id or session_id not in self.sessions\<close>.\<close>

definition find_session :: "'a sessions \<Rightarrow> ustr option \<Rightarrow> (ustr \<times> 'a stream_session) option" where
  "find_session sessions session_id =
     (case session_id of
        None \<Rightarrow> None
      | Some sid \<Rightarrow> if sid = [] then None else map_option (Pair sid) (sessions sid))"

section \<open>Partial stabilizer\<close>

text \<open>The streak and the committed prefix, from the candidate of a non-empty hypothesis.\<close>

definition stabilize :: "ustr \<Rightarrow> 'a stream_session \<Rightarrow> 'a stream_session" where
  "stabilize text s0 =
     (let candidate = boundary_prefix text;
          s = (if candidate \<noteq> [] \<and> candidate = last_prefix_candidate s0
               then s0\<lparr>prefix_streak := prefix_streak s0 + 1\<rparr>
               else s0\<lparr>last_prefix_candidate := candidate,
                       prefix_streak := (if candidate \<noteq> [] then 1 else 0)\<rparr>)
      in
      if candidate \<noteq> [] \<and> prefix_streak s \<ge> 2 then
        (if length candidate > length (committed_prefix s)
            \<and> starts_with candidate (committed_prefix s)
         then s\<lparr>committed_prefix := candidate\<rparr> else s)
      else s)"

text \<open>
  The body of \<open>if text:\<close> on a partial hypothesis: stabilize, put the visible text
  together, diff it against the last emitted text and emit it when it differs.
\<close>

definition emit_partial ::
  "ustr \<Rightarrow> push_result \<times> 'a stream_session \<Rightarrow> push_result \<times> 'a stream_session" where
  "emit_partial text rs =
     (let (r, s) = rs in
      if text = [] then (r, s)
      else
        let s = stabilize text s;
            stable_prefix = committed_prefix s;
            unstable_suffix = drop (length stable_prefix) text;
            full_text = stable_prefix @ unstable_suffix;
            prev = last_emitted_text s;
            (d_from, d_delete, d_insert) = diff prev full_text;
            r = r\<lparr>r_stable_prefix := stable_prefix, r_unstable_suffix := unstable_suffix,
                  r_delta_from := d_from, r_delta_delete := d_delete,
                  r_delta_insert := d_insert\<rparr>
        in
        if full_text \<noteq> prev
        then (r\<lparr>r_text := full_text, r_kind := KPartial\<rparr>, s\<lparr>last_emitted_text := full_text\<rparr>)
        else (r, s))"

text \<open>
  The values the handler's locals start with; the early return of a push with too little
  speech sends exactly these.
\<close>

definition init_result :: "ustr \<Rightarrow> bool \<Rightarrow> int \<Rightarrow> int \<Rightarrow> push_result" where
  "init_result sid endpoint speech silence =
     \<lparr>r_session_id = sid, r_endpoint = endpoint, r_speech_frames = speech,
      r_silence_frames = silence, r_text = [], r_final = False, r_kind = KNone,
      r_committed_text = [], r_actions = [], r_stable_prefix = [], r_unstable_suffix = [],
      r_delta_from = 0, r_delta_delete = 0, r_delta_insert = []\<rparr>"

text \<open>
  The partial branch, entered when the push did not reach an endpoint and speech has been
  counted. \<open>Inl\<close> is a response that leaves the handler at once (the early return, or the
  error of a raising engine); \<open>Inr\<close> goes on to the rest of the handler.
\<close>

definition partial_phase ::
  "'a engine \<Rightarrow> push_result \<Rightarrow> 'a stream_session \<Rightarrow>
     (push_result response \<times> 'a stream_session) + (push_result \<times> 'a stream_session)" where
  "partial_phase engine r s =
     (let size = int (length (buffer_f32 s)) in
      if r_speech_frames r * frame_ms s < min_partial_speech_ms s
      then Inl (Ok (init_result (r_session_id r) False (r_speech_frames r) (r_silence_frames r)),
                s\<lparr>last_partial_samples := size\<rparr>)
      else
        let interval_samples = ms_to_samples (sample_rate_hz s) (partial_interval_ms s) in
        if interval_samples > 0 \<and> size - last_partial_samples s \<ge> interval_samples then
          let start = max 0 (size - max_partial_context_s s * sample_rate_hz s);
              window = drop (nat start) (buffer_f32 s)
          in
          (case engine window (sample_rate_hz s) (language s) (prompt s) of
             Inl msg \<Rightarrow> Inl (Err (Raised msg), s)
           | Inr text \<Rightarrow>
               let (r, s) = emit_partial text (r, s)
               in Inr (r, s\<lparr>last_partial_samples := size\<rparr>))
        else Inr (r, s))"

text \<open>
  The final branch, entered on an endpoint: transcribe the whole buffer, normalize, ask
  the command interpreter, diff, remember a non-empty text and reset the utterance.
\<close>

definition final_phase ::
  "'a engine \<Rightarrow> push_result \<Rightarrow> 'a stream_session \<Rightarrow>
     (push_result response \<times> 'a stream_session) + (push_result \<times> 'a stream_session)" where
  "final_phase engine r s =
     (case engine (buffer_f32 s) (sample_rate_hz s) (language s) (prompt s) of
        Inl msg \<Rightarrow> Inl (Err (Raised msg), s)
      | Inr text \<Rightarrow>
          let text = normalize_mixed_spacing text;
              (is_command, text, actions) =
                (case command_actions text of
                   Some acts \<Rightarrow> (True, text, acts)
                 | None \<Rightarrow>
                     let text = apply_tone_punctuation text
                     in (False, text, if text \<noteq> [] then [Insert text] else []));
              prev = last_emitted_text s;
              (d_from, d_delete, d_insert) = diff prev text;
              r = r\<lparr>r_stable_prefix := [], r_unstable_suffix := [], r_text := text,
                    r_committed_text := (if is_command then [] else text),
                    r_delta_from := d_from, r_delta_delete := d_delete,
                    r_delta_insert := d_insert, r_final := True, r_kind := KFinal,
                    r_actions := actions\<rparr>;
              s = (if text \<noteq> [] then s\<lparr>segments_text := text\<rparr> else s)
          in Inr (r, reset_current_utterance s))"

text \<open>The handler of \<open>stream_push\<close> from \<open>push_audio\<close> on, for the session found.\<close>

definition push_session ::
  "'a engine \<Rightarrow> ('a list \<Rightarrow> bool) \<Rightarrow> ustr \<Rightarrow> 'a stream_session \<Rightarrow> 'a list \<Rightarrow>
     push_result response \<times> 'a stream_session" where
  "push_session engine is_speech sid s0 audio_f32 =
     (let ((endpoint, speech, silence), s) = push_audio is_speech audio_f32 s0;
          r = init_result sid endpoint speech silence
      in
      case (if \<not> endpoint \<and> speech > 0 then partial_phase engine r s else Inr (r, s)) of
        Inl out \<Rightarrow> out
      | Inr (r, s) \<Rightarrow>
          (case (if endpoint then final_phase engine r s else Inr (r, s)) of
             Inl out \<Rightarrow> out
           | Inr (r, s) \<Rightarrow>
               let r = (if r_kind r = KPartial
                        then r\<lparr>r_actions := compose_actions KPartial (r_text r) (r_actions r)\<rparr>
                        else if r_kind r = KFinal
                        then r\<lparr>r_actions := compose_actions KFinal (r_text r) (r_actions r)\<rparr>
                        else r)
               in (Ok r, s)))"


text \<open>
  The end of \<open>stream_finalize\<close>, from the text on: spacing, the command interpreter, and
  for a text that is not a command the tone repair and a single insert.
\<close>

definition finalize_response :: "ustr \<Rightarrow> ustr \<Rightarrow> finalize_result" where
  "finalize_response sid text =
     (let text = normalize_mixed_spacing text in
      case command_actions text of
        Some acts \<Rightarrow> \<lparr>f_session_id = sid, f_text = text, f_actions = acts\<rparr>
      | None \<Rightarrow>
          let text = apply_tone_punctuation text
          in \<lparr>f_session_id = sid, f_text = text,
              f_actions = (if text \<noteq> [] then [Insert text] else [])\<rparr>)"

text \<open>
  \<open>stream_finalize\<close>. \<open>self.sessions.pop(session_id)\<close> comes before the transcription, so
  the registry has lost the session on every path that follows.
\<close>

definition stream_finalize ::
  "'a engine \<Rightarrow> 'a sessions \<Rightarrow> ustr option \<Rightarrow> finalize_result response \<times> 'a sessions" where
  "stream_finalize engine sessions session_id =
     (case find_session sessions session_id of
        None \<Rightarrow> (Err UnknownSessionId, sessions)
      | Some (sid, sess) \<Rightarrow>
          let sessions = sessions(sid := None) in
          (case (if buffer_f32 sess \<noteq> []
                 then engine (buffer_f32 sess) (sample_rate_hz sess) (language sess) (prompt sess)
                 else if segments_text sess \<noteq> [] then Inr (segments_text sess)
                 else Inr []) of
             Inl msg \<Rightarrow> (Err (Raised msg), sessions)
           | Inr text \<Rightarrow> (Ok (finalize_response sid text), sessions)))"

section \<open>Runs of pushes on one session\<close>

text \<open>
  The responses and the states of a session over a sequence of pushed chunks, each push
  starting from the state the one before it left.
\<close>

fun push_trace ::
  "'a engine \<Rightarrow> ('a list \<Rightarrow> bool) \<Rightarrow> ustr \<Rightarrow> 'a stream_session \<Rightarrow> 'a list list \<Rightarrow>
     (push_result response \<times> 'a stream_session) list" where
  "push_trace engine is_speech sid s [] = []"
| "push_trace engine is_speech sid s (audio # rest) =
     (let out = push_session engine is_speech sid s audio
      in out # push_trace engine is_speech sid (snd out) rest)"

text \<open>A push that ended the utterance: its response is of kind \<open>final\<close>.\<close>

definition is_final :: "push_result response \<Rightarrow> bool" where
  "is_final resp = (case resp of Ok r \<Rightarrow> r_kind r = KFinal | Err e \<Rightarrow> False)"

section \<open>The endpoint rule and the frame length in the words of the specification\<close>

text \<open>
  A run of frames is a list of flags, \<open>True\<close> for a speech frame. The specification speaks
  of the speech frames counted so far, of the silence that trails the run, and of the
  threshold of \<open>\<lceil>s / f\<rceil>\<close> frames for a frame duration \<open>f\<close> and a silence threshold \<open>s\<close>.
  An endpoint is due at the end of a run when the run ends in silence, holds a speech
  frame, and its trailing silence has reached the threshold.
\<close>

definition speech_count :: "bool list \<Rightarrow> nat" where
  "speech_count flags = length (filter (\<lambda>b. b) flags)"

definition trailing_silence :: "bool list \<Rightarrow> nat" where
  "trailing_silence flags = length (takeWhile (\<lambda>b. \<not> b) (rev flags))"








section \<open>Auxiliary notions for the properties\<close>

text \<open>The committed prefix is a literal prefix of the text the session emitted last.\<close>

definition prefix_inv :: "'a stream_session \<Rightarrow> bool" where
  "prefix_inv s \<longleftrightarrow> prefix (committed_prefix s) (last_emitted_text s)"


text \<open>
  The result record a final emission builds from the handler's locals: the text, the
  committed text (empty for a command), the three delta fields, and the actions.
\<close>

definition final_result :: "push_result \<Rightarrow> ustr \<Rightarrow> ustr \<Rightarrow> bool \<Rightarrow> action list \<Rightarrow> push_result" where
  "final_result r prev text is_command actions =
     r\<lparr>r_stable_prefix := [], r_unstable_suffix := [], r_text := text,
       r_committed_text := (if is_command then [] else text),
       r_delta_from := fst (diff prev text), r_delta_delete := fst (snd (diff prev text)),
       r_delta_insert := snd (snd (diff prev text)), r_final := True, r_kind := KFinal,
       r_actions := actions\<rparr>"



section \<open>Properties of the diff engine\<close>

lemma starts_with_prefix: "starts_with s w \<longleftrightarrow> prefix w s"
  by (induction s w rule: starts_with.induct) auto

text \<open>
  What the loop returns when it is entered at an index up to which the two strings agree:
  an index not below the entry, within both strings, up to which they still agree and at
  which they differ if both go on.
\<close>

lemma cpl_loop_spec:
  "i \<le> length a \<Longrightarrow> i \<le> length b \<Longrightarrow> take i a = take i b \<Longrightarrow>
   i \<le> cpl_loop a b i \<and> cpl_loop a b i \<le> length a \<and> cpl_loop a b i \<le> length b \<and>
   take (cpl_loop a b i) a = take (cpl_loop a b i) b \<and>
   (cpl_loop a b i < length a \<and> cpl_loop a b i < length b
      \<longrightarrow> a ! cpl_loop a b i \<noteq> b ! cpl_loop a b i)"
proof (induction a b i rule: cpl_loop.induct)
  case (1 a b i)
  show ?case
  proof (cases "i < min (length a) (length b) \<and> a ! i = b ! i")
    case True
    then have t: "take (Suc i) a = take (Suc i) b"
      using "1.prems" by (simp add: take_Suc_conv_app_nth)
    have l: "Suc i \<le> length a" "Suc i \<le> length b" using True by auto
    have e: "cpl_loop a b i = cpl_loop a b (Suc i)"
      using True by (simp add: cpl_loop.simps [of a b i])
    from "1.IH" [OF True l t] show ?thesis
      unfolding e by auto
  next
    case False
    have e: "cpl_loop a b i = i"
      by (subst cpl_loop.simps) (simp only: False if_False)
    show ?thesis using False "1.prems" unfolding e by auto
  qed
qed

lemma common_prefix_len_take:
  "take (common_prefix_len a b) a = take (common_prefix_len a b) b"
  using cpl_loop_spec [of 0 a b] by (simp add: common_prefix_len_def)

lemma common_prefix_len_le:
  "common_prefix_len a b \<le> length a" "common_prefix_len a b \<le> length b"
  using cpl_loop_spec [of 0 a b] by (simp_all add: common_prefix_len_def)

lemma common_prefix_len_stop:
  "common_prefix_len a b < length a \<Longrightarrow> common_prefix_len a b < length b \<Longrightarrow>
   a ! common_prefix_len a b \<noteq> b ! common_prefix_len a b"
  using cpl_loop_spec [of 0 a b] by (simp add: common_prefix_len_def)

lemma common_prefix_len_greatest:
  assumes "take k a = take k b" "k \<le> length a" "k \<le> length b"
  shows "k \<le> common_prefix_len a b"
proof (rule ccontr)
  let ?c = "common_prefix_len a b"
  assume "\<not> k \<le> ?c"
  then have lt: "?c < k" by simp
  then have "?c < length a" "?c < length b" using assms by auto
  then have ne: "a ! ?c \<noteq> b ! ?c" by (rule common_prefix_len_stop)
  have "take k a ! ?c = take k b ! ?c" using assms(1) by simp
  then show False using ne lt by simp
qed

text \<open>
  C1 (diff reconstruction law). For every pair of strings the diff engine returns
  \<open>from = cpl\<close>, \<open>delete = len(prev) - cpl\<close> and \<open>insert = new[cpl:]\<close>, and
  \<open>prev[:from] + insert\<close> is the new string. The number \<open>cpl\<close> is the length of the
  longest common prefix: the two strings agree on their first \<open>cpl\<close> characters, and on
  no longer prefix.
\<close>

theorem diff_reconstruction:
  "(case diff prev new of (d_from, d_delete, d_insert) \<Rightarrow>
      d_from = int (common_prefix_len prev new) \<and>
      d_delete = int (length prev) - d_from \<and>
      d_insert = drop (common_prefix_len prev new) new \<and>
      take (nat d_from) prev @ d_insert = new \<and>
      0 \<le> d_delete) \<and>
   take (common_prefix_len prev new) prev = take (common_prefix_len prev new) new \<and>
   (\<forall>k. k \<le> length prev \<and> k \<le> length new \<and> take k prev = take k new
        \<longrightarrow> k \<le> common_prefix_len prev new)"
proof -
  have "take (common_prefix_len prev new) prev @ drop (common_prefix_len prev new) new = new"
    by (subst common_prefix_len_take) (rule append_take_drop_id)
  then show ?thesis
    using common_prefix_len_le [of prev new] common_prefix_len_take [of prev new]
      common_prefix_len_greatest [of _ prev new]
    by (auto simp: diff_def Let_def)
qed

theorem diff_reconstruction_witness:
  "diff [104, 105, 33] [104, 105, 63, 63] = (2, 1, [63, 63]) \<and>
   take 2 [104, 105, 33 :: nat] @ [63, 63] = [104, 105, 63, 63] \<and>
   common_prefix_len [104, 105, 33 :: nat] [104, 105, 63, 63] = 2"
  using diff_reconstruction [of "[104, 105, 33]" "[104, 105, 63, 63]"]
  by (simp add: diff_def common_prefix_len_def cpl_loop.simps)

section \<open>Properties of the endpoint detector\<close>


lemma speech_count_snoc [simp]:
  "speech_count (flags @ [b]) = (if b then Suc (speech_count flags) else speech_count flags)"
  by (simp add: speech_count_def)

lemma trailing_silence_snoc [simp]:
  "trailing_silence (flags @ [b]) = (if b then 0 else Suc (trailing_silence flags))"
  by (simp add: trailing_silence_def)

lemma speech_count_Nil [simp]: "speech_count [] = 0" by (simp add: speech_count_def)
lemma trailing_silence_Nil [simp]: "trailing_silence [] = 0" by (simp add: trailing_silence_def)


















section \<open>Properties of the frame segmenter\<close>





lemma push_audio_empty:
  "push_audio v [] s = ((False, speech_frames s, silence_frames s), s)"
  by (simp add: push_audio_def)

lemma buffer_update_fields:
  "sample_rate_hz (s\<lparr>buffer_f32 := b\<rparr>) = sample_rate_hz s"
  "frame_ms (s\<lparr>buffer_f32 := b\<rparr>) = frame_ms s"
  "speech_frames (s\<lparr>buffer_f32 := b\<rparr>) = speech_frames s"
  "silence_frames (s\<lparr>buffer_f32 := b\<rparr>) = silence_frames s"
  by simp_all

lemma push_audio_no_frame:
  assumes "audio \<noteq> []"
    and "ms_to_samples (sample_rate_hz s) (frame_ms s) \<le> 0
         \<or> int (length audio) < ms_to_samples (sample_rate_hz s) (frame_ms s)"
  shows "push_audio v audio s =
           ((False, speech_frames s, silence_frames s), s\<lparr>buffer_f32 := buffer_f32 s @ audio\<rparr>)"
proof (cases "ms_to_samples (sample_rate_hz s) (frame_ms s) \<le> 0")
  case True
  then show ?thesis
    unfolding push_audio_def Let_def
    by (simp only: assms(1) if_False if_True buffer_update_fields)
next
  case False
  then have z: "int (length audio) div ms_to_samples (sample_rate_hz s) (frame_ms s) \<le> 0"
    using assms(2) by (simp add: div_pos_pos_trivial)
  show ?thesis
    unfolding push_audio_def Let_def
    by (simp only: assms(1) False z if_False if_True buffer_update_fields)
qed

lemma push_audio_frames:
  assumes "audio \<noteq> []"
    and "0 < ms_to_samples (sample_rate_hz s) (frame_ms s)"
    and "ms_to_samples (sample_rate_hz s) (frame_ms s) \<le> int (length audio)"
  defines "k \<equiv> nat (ms_to_samples (sample_rate_hz s) (frame_ms s))"
  shows "push_audio v audio s =
           (case vad_loop v (reshape (length audio div k) k (drop (length audio mod k) audio))
                   False (s\<lparr>buffer_f32 := buffer_f32 s @ audio\<rparr>) of
              (endpoint, s') \<Rightarrow> ((endpoint, speech_frames s', silence_frames s'), s'))"
proof -
  let ?fl = "ms_to_samples (sample_rate_hz s) (frame_ms s)"
  have k: "?fl = int k" "0 < k" using assms(2) by (simp_all add: k_def)
  have n: "int (length audio) div int k = int (length audio div k)"
    by (simp add: zdiv_int)
  have "k \<le> length audio" using assms(3) k by simp
  then have pos: "0 < length audio div k" using k(2) by (simp add: div_greater_zero_iff)
  have st: "nat (int (length audio) - int (length audio div k) * int k) = length audio mod k"
  proof -
    have "int (length audio) - int (length audio div k) * int k = int (length audio mod k)"
      by (simp add: zmod_int zdiv_int minus_div_mult_eq_mod)
    then show ?thesis by (simp only: nat_int)
  qed
  have nz: "\<not> int (length audio div k) \<le> 0" using pos by simp
  have nf: "\<not> int k \<le> 0" using k(2) by simp
  show ?thesis
    unfolding push_audio_def Let_def
    by (simp only: assms(1) if_False buffer_update_fields k(1) n nz nf st nat_int)
qed







section \<open>Properties of the request handlers\<close>

lemma vad_loop_state:
  "\<exists>ep' sp si. vad_loop v frs ep s = (ep', s\<lparr>speech_frames := sp, silence_frames := si\<rparr>)"
proof (induction frs arbitrary: ep s)
  case Nil
  have "s = s\<lparr>speech_frames := speech_frames s, silence_frames := silence_frames s\<rparr>" by simp
  then show ?case by (metis vad_loop.simps(1))
next
  case (Cons fr frs)
  show ?case
  proof (cases "v fr")
    case True
    obtain ep' sp si where
      "vad_loop v frs ep (s\<lparr>speech_frames := speech_frames s + 1, silence_frames := 0\<rparr>) =
         (ep', s\<lparr>speech_frames := speech_frames s + 1, silence_frames := 0\<rparr>
                \<lparr>speech_frames := sp, silence_frames := si\<rparr>)"
      using Cons.IH by blast
    then have "vad_loop v (fr # frs) ep s = (ep', s\<lparr>speech_frames := sp, silence_frames := si\<rparr>)"
      using True by simp
    then show ?thesis by blast
  next
    case False
    let ?s1 = "s\<lparr>silence_frames := silence_frames s + 1\<rparr>"
    obtain e1 sp1 si1 where 1:
      "vad_loop v frs True ?s1 = (e1, ?s1\<lparr>speech_frames := sp1, silence_frames := si1\<rparr>)"
      using Cons.IH by blast
    obtain e2 sp2 si2 where 2:
      "vad_loop v frs ep ?s1 = (e2, ?s1\<lparr>speech_frames := sp2, silence_frames := si2\<rparr>)"
      using Cons.IH by blast
    have "vad_loop v (fr # frs) ep s = (e1, s\<lparr>speech_frames := sp1, silence_frames := si1\<rparr>)
        \<or> vad_loop v (fr # frs) ep s = (e2, s\<lparr>speech_frames := sp2, silence_frames := si2\<rparr>)"
      using False 1 2 by (simp add: Let_def)
    then show ?thesis by blast
  qed
qed

lemma push_audio_state:
  "\<exists>ep sp si. push_audio v audio s =
     ((ep, sp, si), s\<lparr>buffer_f32 := buffer_f32 s @ audio, speech_frames := sp, silence_frames := si\<rparr>)"
proof -
  let ?fl = "ms_to_samples (sample_rate_hz s) (frame_ms s)"
  let ?s1 = "s\<lparr>buffer_f32 := buffer_f32 s @ audio\<rparr>"
  have id: "s' = s'\<lparr>speech_frames := speech_frames s', silence_frames := silence_frames s'\<rparr>"
    for s' :: "'a stream_session" by simp
  consider "audio = []" | "audio \<noteq> []" "?fl \<le> 0 \<or> int (length audio) < ?fl"
    | "0 < ?fl" "?fl \<le> int (length audio)" "audio \<noteq> []"
    by linarith
  then show ?thesis
  proof cases
    case 1
    have "push_audio v audio s = ((False, speech_frames s, silence_frames s),
            s\<lparr>buffer_f32 := buffer_f32 s @ audio, speech_frames := speech_frames s,
              silence_frames := silence_frames s\<rparr>)"
      using 1 push_audio_empty [of v s] by simp
    then show ?thesis by blast
  next
    case 2
    have "push_audio v audio s = ((False, speech_frames s, silence_frames s),
            s\<lparr>buffer_f32 := buffer_f32 s @ audio, speech_frames := speech_frames s,
              silence_frames := silence_frames s\<rparr>)"
      using push_audio_no_frame [OF 2, of v] by simp
    then show ?thesis by blast
  next
    case 3
    let ?k = "nat ?fl"
    obtain ep' sp si where
      "vad_loop v (reshape (length audio div ?k) ?k (drop (length audio mod ?k) audio)) False ?s1 =
         (ep', ?s1\<lparr>speech_frames := sp, silence_frames := si\<rparr>)"
      using vad_loop_state by blast
    then have "push_audio v audio s = ((ep', sp, si), ?s1\<lparr>speech_frames := sp, silence_frames := si\<rparr>)"
      using push_audio_frames [OF 3(3) 3(1) 3(2), of v] by simp
    then show ?thesis by blast
  qed
qed

lemma stabilize_committed:
  "committed_prefix (stabilize text s) = committed_prefix s \<or>
   (committed_prefix (stabilize text s) = boundary_prefix text \<and>
    length (committed_prefix s) < length (boundary_prefix text) \<and>
    prefix (committed_prefix s) (boundary_prefix text))"
  by (simp add: stabilize_def Let_def starts_with_prefix)

lemma stabilize_other:
  "last_emitted_text (stabilize text s) = last_emitted_text s"
  "buffer_f32 (stabilize text s) = buffer_f32 s"
  "segments_text (stabilize text s) = segments_text s"
  by (simp_all add: stabilize_def Let_def)

lemma boundary_prefix_is_prefix: "prefix (boundary_prefix text) text"
proof -
  have "suffix (dropWhile (\<lambda>ch. ch \<notin> set boundary_chars) (rev text)) (rev text)"
    by (rule suffix_dropWhile)
  then show ?thesis
    unfolding boundary_prefix_def by (metis rev_rev_ident suffix_to_prefix)
qed

lemma emit_partial_cases:
  "emit_partial text (r, s) = (r', s') \<Longrightarrow>
   (text = [] \<and> r' = r \<and> s' = s) \<or>
   (text \<noteq> [] \<and>
    s' = (stabilize text s)\<lparr>last_emitted_text :=
            committed_prefix (stabilize text s) @ drop (length (committed_prefix (stabilize text s))) text\<rparr> \<and>
    r_stable_prefix r' = committed_prefix (stabilize text s) \<and>
    r_unstable_suffix r' = drop (length (committed_prefix (stabilize text s))) text \<and>
    ((r_kind r' = KPartial \<and> r_text r' = last_emitted_text s') \<or>
     (r_kind r' = r_kind r \<and> r_text r' = r_text r)) \<and>
    r_actions r' = r_actions r)"
  by (auto simp: emit_partial_def Let_def split: prod.splits if_splits)

lemma partial_phase_cases:
  "partial_phase engine r s = out \<Longrightarrow>
   (out = Inl (Ok (init_result (r_session_id r) False (r_speech_frames r) (r_silence_frames r)),
               s\<lparr>last_partial_samples := int (length (buffer_f32 s))\<rparr>)) \<or>
   (\<exists>msg. out = Inl (Err (Raised msg), s)) \<or>
   (\<exists>text r' s'. emit_partial text (r, s) = (r', s') \<and>
       out = Inr (r', s'\<lparr>last_partial_samples := int (length (buffer_f32 s))\<rparr>)) \<or>
   out = Inr (r, s)"
  by (auto simp: partial_phase_def Let_def split: sum.splits prod.splits if_splits)

lemma final_phase_raise:
  "engine (buffer_f32 s) (sample_rate_hz s) (language s) (prompt s) = Inl msg \<Longrightarrow>
   final_phase engine r s = Inl (Err (Raised msg), s)"
  by (simp add: final_phase_def)

lemma final_phase_command:
  "engine (buffer_f32 s) (sample_rate_hz s) (language s) (prompt s) = Inr raw \<Longrightarrow>
   command_actions (normalize_mixed_spacing raw) = Some acts \<Longrightarrow>
   final_phase engine r s =
     Inr (final_result r (last_emitted_text s) (normalize_mixed_spacing raw) True acts,
          reset_current_utterance
            (if normalize_mixed_spacing raw \<noteq> []
             then s\<lparr>segments_text := normalize_mixed_spacing raw\<rparr> else s))"
  by (simp add: final_phase_def final_result_def Let_def case_prod_beta)

lemma final_phase_insert:
  "engine (buffer_f32 s) (sample_rate_hz s) (language s) (prompt s) = Inr raw \<Longrightarrow>
   command_actions (normalize_mixed_spacing raw) = None \<Longrightarrow>
   final_phase engine r s =
     Inr (final_result r (last_emitted_text s) (normalize_final raw) False
            (if normalize_final raw \<noteq> [] then [Insert (normalize_final raw)] else []),
          reset_current_utterance
            (if normalize_final raw \<noteq> []
             then s\<lparr>segments_text := normalize_final raw\<rparr> else s))"
  by (simp add: final_phase_def final_result_def Let_def case_prod_beta normalize_final_def)

lemma compose_final [simp]: "compose_actions KFinal text actions = actions"
  by (simp add: compose_actions_def)

lemma final_result_kind [simp]:
  "r_kind (final_result r prev text c acts) = KFinal"
  "r_text (final_result r prev text c acts) = text"
  "r_actions (final_result r prev text c acts) = acts"
  "r_committed_text (final_result r prev text c acts) = (if c then [] else text)"
  by (simp_all add: final_result_def)

lemma init_result_fields [simp]:
  "r_kind (init_result sid ep sp si) = KNone"
  "r_speech_frames (init_result sid ep sp si) = sp"
  "r_silence_frames (init_result sid ep sp si) = si"
  "r_session_id (init_result sid ep sp si) = sid"
  "r_text (init_result sid ep sp si) = []"
  "r_actions (init_result sid ep sp si) = []"
  by (simp_all add: init_result_def)

lemma push_session_endpoint:
  assumes "push_audio v audio s0 = ((True, sp, si), s1)"
  shows "push_session engine v sid s0 audio =
           (case final_phase engine (init_result sid True sp si) s1 of
              Inl out \<Rightarrow> out
            | Inr (r, s) \<Rightarrow>
                (Ok (if r_kind r = KPartial
                     then r\<lparr>r_actions := compose_actions KPartial (r_text r) (r_actions r)\<rparr>
                     else if r_kind r = KFinal
                     then r\<lparr>r_actions := compose_actions KFinal (r_text r) (r_actions r)\<rparr>
                     else r), s))"
  by (simp add: push_session_def assms Let_def split: sum.splits prod.splits)

lemma push_session_no_endpoint:
  assumes "push_audio v audio s0 = ((False, sp, si), s1)"
  shows "push_session engine v sid s0 audio =
           (case (if sp > 0 then partial_phase engine (init_result sid False sp si) s1
                  else Inr (init_result sid False sp si, s1)) of
              Inl out \<Rightarrow> out
            | Inr (r, s) \<Rightarrow>
                (Ok (if r_kind r = KPartial
                     then r\<lparr>r_actions := compose_actions KPartial (r_text r) (r_actions r)\<rparr>
                     else if r_kind r = KFinal
                     then r\<lparr>r_actions := compose_actions KFinal (r_text r) (r_actions r)\<rparr>
                     else r), s))"
  by (simp add: push_session_def assms Let_def split: sum.splits prod.splits)

lemma push_session_final_command:
  assumes "push_audio v audio s0 = ((True, sp, si), s1)"
    and "engine (buffer_f32 s1) (sample_rate_hz s1) (language s1) (prompt s1) = Inr raw"
    and "command_actions (normalize_mixed_spacing raw) = Some acts"
  shows "push_session engine v sid s0 audio =
           (Ok (final_result (init_result sid True sp si) (last_emitted_text s1)
                  (normalize_mixed_spacing raw) True acts),
            reset_current_utterance
              (if normalize_mixed_spacing raw \<noteq> []
               then s1\<lparr>segments_text := normalize_mixed_spacing raw\<rparr> else s1))"
  unfolding push_session_endpoint [OF assms(1)] final_phase_command [where engine = engine and s = s1, OF assms(2,3)]
  by (simp add: final_result_def)

lemma push_session_final_insert:
  assumes "push_audio v audio s0 = ((True, sp, si), s1)"
    and "engine (buffer_f32 s1) (sample_rate_hz s1) (language s1) (prompt s1) = Inr raw"
    and "command_actions (normalize_mixed_spacing raw) = None"
  shows "push_session engine v sid s0 audio =
           (Ok (final_result (init_result sid True sp si) (last_emitted_text s1)
                  (normalize_final raw) False
                  (if normalize_final raw \<noteq> [] then [Insert (normalize_final raw)] else [])),
            reset_current_utterance
              (if normalize_final raw \<noteq> []
               then s1\<lparr>segments_text := normalize_final raw\<rparr> else s1))"
  unfolding push_session_endpoint [OF assms(1)] final_phase_insert [where engine = engine and s = s1, OF assms(2,3)]
  by (simp add: final_result_def)

lemma push_session_final_raise:
  assumes "push_audio v audio s0 = ((True, sp, si), s1)"
    and "engine (buffer_f32 s1) (sample_rate_hz s1) (language s1) (prompt s1) = Inl msg"
  shows "push_session engine v sid s0 audio = (Err (Raised msg), s1)"
  unfolding push_session_endpoint [OF assms(1)] final_phase_raise [where engine = engine and s = s1, OF assms(2)]
  by simp

lemma push_session_cases:
  assumes run: "push_session engine v sid s0 audio = (resp, s')"
    and pa: "push_audio v audio s0 = ((ep, sp, si), s1)"
  shows
    "(ep \<and> (\<exists>msg. resp = Err (Raised msg) \<and> s' = s1 \<and>
         engine (buffer_f32 s1) (sample_rate_hz s1) (language s1) (prompt s1) = Inl msg)) \<or>
     (ep \<and> (\<exists>r. resp = Ok r \<and> r_kind r = KFinal \<and>
         s' = reset_current_utterance
                (if r_text r \<noteq> [] then s1\<lparr>segments_text := r_text r\<rparr> else s1))) \<or>
     (\<not> ep \<and> (\<exists>msg. resp = Err (Raised msg) \<and> s' = s1)) \<or>
     (\<not> ep \<and> (\<exists>r. resp = Ok r \<and> r_kind r = KNone \<and>
         (s' = s1 \<or> s' = s1\<lparr>last_partial_samples := int (length (buffer_f32 s1))\<rparr>))) \<or>
     (\<not> ep \<and> (\<exists>r text. resp = Ok r \<and> text \<noteq> [] \<and> r_kind r \<noteq> KFinal \<and>
         s' = (stabilize text s1)
                \<lparr>last_emitted_text :=
                   committed_prefix (stabilize text s1) @
                   drop (length (committed_prefix (stabilize text s1))) text,
                 last_partial_samples := int (length (buffer_f32 s1))\<rparr> \<and>
         r_stable_prefix r = committed_prefix (stabilize text s1) \<and>
         (r_kind r = KPartial \<longrightarrow> r_text r = last_emitted_text s')))"
proof (cases ep)
  case True
  have pa': "push_audio v audio s0 = ((True, sp, si), s1)" using pa True by simp
  show ?thesis
  proof (cases "engine (buffer_f32 s1) (sample_rate_hz s1) (language s1) (prompt s1)")
    case (Inl msg)
    show ?thesis
      using run push_session_final_raise [where engine = engine and sid = sid, OF pa' Inl] True Inl by simp
  next
    case (Inr raw)
    show ?thesis
    proof (cases "command_actions (normalize_mixed_spacing raw)")
      case None
      show ?thesis
        using run push_session_final_insert [where engine = engine and sid = sid, OF pa' Inr None] True by auto
    next
      case (Some acts)
      show ?thesis
        using run push_session_final_command [where engine = engine and sid = sid, OF pa' Inr Some] True by auto
    qed
  qed
next
  case False
  have pa': "push_audio v audio s0 = ((False, sp, si), s1)" using pa False by simp
  let ?r0 = "init_result sid False sp si"
  show ?thesis
  proof (cases "sp > 0")
    case sp: False
    then have "push_session engine v sid s0 audio = (Ok ?r0, s1)"
      by (simp add: push_session_no_endpoint [OF pa'])
    then show ?thesis using run False by auto
  next
    case sp: True
    have ps: "push_session engine v sid s0 audio =
           (case partial_phase engine ?r0 s1 of
              Inl out \<Rightarrow> out
            | Inr (r, s) \<Rightarrow>
                (Ok (if r_kind r = KPartial
                     then r\<lparr>r_actions := compose_actions KPartial (r_text r) (r_actions r)\<rparr>
                     else if r_kind r = KFinal
                     then r\<lparr>r_actions := compose_actions KFinal (r_text r) (r_actions r)\<rparr>
                     else r), s))"
      using sp by (simp add: push_session_no_endpoint [OF pa'])
    from partial_phase_cases [OF refl, of engine ?r0 s1]
    consider
      (early) "partial_phase engine ?r0 s1 =
         Inl (Ok (init_result (r_session_id ?r0) False (r_speech_frames ?r0) (r_silence_frames ?r0)),
              s1\<lparr>last_partial_samples := int (length (buffer_f32 s1))\<rparr>)"
      | (raise) msg where "partial_phase engine ?r0 s1 = Inl (Err (Raised msg), s1)"
      | (emit) hyp r' s2 where "emit_partial hyp (?r0, s1) = (r', s2)"
          "partial_phase engine ?r0 s1 =
             Inr (r', s2\<lparr>last_partial_samples := int (length (buffer_f32 s1))\<rparr>)"
      | (skip) "partial_phase engine ?r0 s1 = Inr (?r0, s1)"
      by blast
    then show ?thesis
    proof cases
      case early
      then show ?thesis using run ps False by auto
    next
      case raise
      then show ?thesis using run ps False by auto
    next
      case skip
      then show ?thesis using run ps False by auto
    next
      case emit
      show ?thesis
      proof (cases "hyp = []")
        case True
        then have "r' = ?r0" "s2 = s1" using emit_partial_cases [OF emit(1)] by auto
        then show ?thesis using run ps emit(2) False by auto
      next
        case t: False
        from emit_partial_cases [OF emit(1)] t
        have s2: "s2 = (stabilize hyp s1)\<lparr>last_emitted_text :=
            committed_prefix (stabilize hyp s1) @ drop (length (committed_prefix (stabilize hyp s1))) hyp\<rparr>"
          and st: "r_stable_prefix r' = committed_prefix (stabilize hyp s1)"
          and k: "(r_kind r' = KPartial \<and> r_text r' = last_emitted_text s2) \<or>
                  (r_kind r' = r_kind ?r0 \<and> r_text r' = r_text ?r0)"
          by blast+
        have s': "s' = s2\<lparr>last_partial_samples := int (length (buffer_f32 s1))\<rparr>"
          using run ps emit(2) by simp
        have le: "last_emitted_text s' = last_emitted_text s2" unfolding s' by simp
        from k consider (p) "r_kind r' = KPartial" "r_text r' = last_emitted_text s2"
          | (n) "r_kind r' = KNone" by auto
        then obtain r where r: "resp = Ok r" "r_kind r \<noteq> KFinal"
          "r_stable_prefix r = committed_prefix (stabilize hyp s1)"
          "r_kind r = KPartial \<longrightarrow> r_text r = last_emitted_text s'"
        proof cases
          case p
          have "resp = Ok (r'\<lparr>r_actions := compose_actions KPartial (r_text r') (r_actions r')\<rparr>)"
            using run ps emit(2) p by simp
          then show ?thesis using that p st le by simp
        next
          case n
          have "resp = Ok r'" using run ps emit(2) n by simp
          then show ?thesis using that n st by simp
        qed
        have "\<not> ep \<and> (\<exists>r text. resp = Ok r \<and> text \<noteq> [] \<and> r_kind r \<noteq> KFinal \<and>
           s' = (stabilize text s1)
                \<lparr>last_emitted_text :=
                   committed_prefix (stabilize text s1) @
                   drop (length (committed_prefix (stabilize text s1))) text,
                 last_partial_samples := int (length (buffer_f32 s1))\<rparr> \<and>
           r_stable_prefix r = committed_prefix (stabilize text s1) \<and>
           (r_kind r = KPartial \<longrightarrow> r_text r = last_emitted_text s'))"
          using False r t s' s2 by blast
        then show ?thesis by blast
      qed
    qed
  qed
qed

lemmas command_defs = command_actions_def clean_command_text_def command_strip_chars_def
  py_strip_def strip_by_def py_isspace_def py_lower_def lower_cp_def is_suppressed_phrase_def
  SUPPRESSED_KEYS_def suppressed_phrases_def command_key_def is_key_noise_def
  newline_phrases_def space_phrases_def backspace_phrases_def delete_word_phrases_def
  delete_sentence_phrases_def undo_phrases_def redo_phrases_def clear_phrases_def punct_map_def
  Let_def

lemma command_actions_newline: "command_actions [25442, 34892] = Some [Insert [10]]"
  by (simp add: command_defs)

lemma spacing_newline: "normalize_mixed_spacing [25442, 34892] = [25442, 34892]"
  by (simp add: normalize_mixed_spacing_def is_cjk_def is_ascii_alnum_def)

lemma command_actions_undo: "command_actions [117, 110, 100, 111] = Some [SystemUndo]"
  by (simp add: command_defs)

lemma command_actions_un_do: "command_actions [117, 110, 32, 100, 111] = None"
  by (simp add: command_defs)

lemma command_key_un_do: "command_key [117, 110, 32, 100, 111] = [117, 110, 100, 111]"
  by (simp add: command_defs)


lemmas text_defs = normalize_final_def normalize_mixed_spacing_def apply_tone_punctuation_def
  py_strip_def strip_by_def py_isspace_def is_cjk_def is_ascii_alnum_def is_end_punct_def
  strip_punct_run_def re_trailing_punct_sub_def re_end_punct_search_def has_cjk_def has_comma_def
  maybe_insert_cn_comma_def looks_like_question_def ends_with_particle_def word_then_boundary_def
  is_word_char_def py_lower_def lower_cp_def cn_question_anywhere_def cn_question_start_def
  en_question_start_def cn_connectors_def Let_def


text \<open>
  C5 (finalize semantics). For a \<open>stream_finalize\<close> on a known session: the session is
  removed from the registry whatever happens next; a non-empty buffer is transcribed (and
  the result is the error of the engine, or the response built from its text); with an
  empty buffer and a cached text the response is built from the cached text, the engine
  not being asked; and if the state of the session is the one a push left that ended in
  a final emission of a non-empty text, the buffer is empty and the cached text is that
  text, so the finalize answers from it.
\<close>

theorem finalize_semantics:
  assumes "find_session sessions session_id = Some (sid, sess)"
  shows
    "snd (stream_finalize engine sessions session_id) = sessions(sid := None) \<and>
     (buffer_f32 sess \<noteq> [] \<longrightarrow>
        fst (stream_finalize engine sessions session_id) =
          (case engine (buffer_f32 sess) (sample_rate_hz sess) (language sess) (prompt sess) of
             Inl msg \<Rightarrow> Err (Raised msg)
           | Inr text \<Rightarrow> Ok (finalize_response sid text))) \<and>
     (buffer_f32 sess = [] \<and> segments_text sess \<noteq> [] \<longrightarrow>
        fst (stream_finalize engine sessions session_id) =
          Ok (finalize_response sid (segments_text sess))) \<and>
     (\<forall>is_speech s0 audio r.
        push_session engine is_speech sid s0 audio = (Ok r, sess) \<and> r_kind r = KFinal \<and>
        r_text r \<noteq> [] \<longrightarrow>
        buffer_f32 sess = [] \<and> segments_text sess = r_text r \<and>
        fst (stream_finalize engine sessions session_id) = Ok (finalize_response sid (r_text r)))"
proof -
  have a: "snd (stream_finalize engine sessions session_id) = sessions(sid := None)"
    by (simp add: stream_finalize_def assms Let_def split: sum.splits)
  have b: "fst (stream_finalize engine sessions session_id) =
          (case engine (buffer_f32 sess) (sample_rate_hz sess) (language sess) (prompt sess) of
             Inl msg \<Rightarrow> Err (Raised msg)
           | Inr text \<Rightarrow> Ok (finalize_response sid text))" if "buffer_f32 sess \<noteq> []"
    using that by (simp add: stream_finalize_def assms Let_def split: sum.splits)
  have c: "fst (stream_finalize engine sessions session_id) =
          Ok (finalize_response sid (segments_text sess))"
    if "buffer_f32 sess = []" "segments_text sess \<noteq> []"
    using that by (simp add: stream_finalize_def assms Let_def)
  have d: "buffer_f32 sess = [] \<and> segments_text sess = r_text r \<and>
        fst (stream_finalize engine sessions session_id) = Ok (finalize_response sid (r_text r))"
    if h: "push_session engine is_speech sid s0 audio = (Ok r, sess)" "r_kind r = KFinal"
      "r_text r \<noteq> []" for is_speech s0 audio r
  proof -
    obtain ep sp si s1 where pa: "push_audio is_speech audio s0 = ((ep, sp, si), s1)"
      by (metis prod_cases3 surj_pair)
    from push_session_cases [OF h(1) pa] h(2,3)
    have "sess = reset_current_utterance (s1\<lparr>segments_text := r_text r\<rparr>)"
      by auto
    then have e: "buffer_f32 sess = []" "segments_text sess = r_text r"
      by (simp_all add: reset_current_utterance_def)
    then show ?thesis using c h(3) by simp
  qed
  from a b c d show ?thesis by blast
qed

theorem finalize_semantics_witness:
  "stream_finalize (\<lambda>a r l p. Inl [120])
     (Map.empty([1] \<mapsto> (new_session 16000 None None 500 20 300 450 :: nat stream_session)
                          \<lparr>segments_text := [104, 105, 46]\<rparr>))
     (Some [1]) =
   (Ok \<lparr>f_session_id = [1], f_text = [104, 105, 46], f_actions = [Insert [104, 105, 46]]\<rparr>,
    Map.empty)"
proof -
  let ?s = "(new_session 16000 None None 500 20 300 450 :: nat stream_session)
               \<lparr>segments_text := [104, 105, 46]\<rparr>"
  have f: "find_session (Map.empty([1] \<mapsto> ?s)) (Some [1]) = Some ([1], ?s)"
    by (simp add: find_session_def)
  have r: "finalize_response [1] [104, 105, 46] =
     \<lparr>f_session_id = [1], f_text = [104, 105, 46], f_actions = [Insert [104, 105, 46]]\<rparr>"
    by (simp add: finalize_response_def command_defs text_defs)
  have b: "buffer_f32 ?s = []" "segments_text ?s = [104, 105, 46]"
    by (simp_all add: new_session_def)
  show ?thesis
    using finalize_semantics [OF f, of "\<lambda>a r l p. Inl [120]"] b r
    by (simp add: prod_eq_iff)
qed





lemma reshape_two: "reshape 2 k a = [take k a, take k (drop k a)]"
  by (simp add: numeral_2_eq_2)

lemma push_audio_example:
  "push_audio (\<lambda>fr. 1 \<in> set fr) (replicate 480 (1::nat) @ replicate 480 0)
     (new_session 16000 None None 500 20 300 30) =
   ((True, 1, 1),
    (new_session 16000 None None 500 20 300 30)
      \<lparr>buffer_f32 := replicate 480 1 @ replicate 480 0, speech_frames := 1, silence_frames := 1\<rparr>)"
proof -
  let ?s = "new_session 16000 None None 500 20 300 30 :: nat stream_session"
  let ?a = "replicate 480 (1::nat) @ replicate 480 0"
  have fl: "ms_to_samples (sample_rate_hz ?s) (frame_ms ?s) = 480"
    by (simp add: new_session_def ms_to_samples_def)
  have ne: "?a \<noteq> []" by simp
  have l: "length ?a div 480 = 2" "length ?a mod 480 = 0" by simp_all
  have v: "vad_loop (\<lambda>fr. 1 \<in> set fr) [replicate 480 (1::nat), replicate 480 0] False
             (?s\<lparr>buffer_f32 := buffer_f32 ?s @ ?a\<rparr>) =
           (True, ?s\<lparr>buffer_f32 := ?a, speech_frames := 1, silence_frames := 1\<rparr>)"
    by (simp add: new_session_def Let_def)
  have r: "reshape 2 480 (drop 0 ?a) = [replicate 480 (1::nat), replicate 480 0]"
    by (simp add: reshape_two)
  show ?thesis
    using push_audio_frames [OF ne, of ?s "\<lambda>fr. 1 \<in> set fr"]
    unfolding fl by (simp only: nat_numeral l r v prod.case stream_session.simps)
       (simp add: new_session_def)
qed




text \<open>
  C9 (command versus insert). The command interpreter returns either \<open>None\<close> (not a
  command) or a list of actions, never both. On a push that reached an endpoint and whose
  transcription succeeded, the response is final; if the spaced text is a command, the
  actions are the command's, the committed text is empty and the text is the spaced
  text; if it is not, the text is the normalized text, the committed text is the same,
  and the actions are a single insert of it, or none when it is empty. The command
  U+6362 U+884C gives exactly one insert of a line feed.
\<close>

theorem command_insert_disjoint:
  "(command_actions phrase = None \<or> (\<exists>acts. command_actions phrase = Some acts)) \<and>
   \<not> (command_actions phrase = None \<and> (\<exists>acts. command_actions phrase = Some acts)) \<and>
   (push_audio is_speech audio s0 = ((True, sp, si), s1) \<and>
    engine (buffer_f32 s1) (sample_rate_hz s1) (language s1) (prompt s1) = Inr raw \<longrightarrow>
      (\<exists>r s'. push_session engine is_speech sid s0 audio = (Ok r, s') \<and> r_kind r = KFinal \<and>
         (case command_actions (normalize_mixed_spacing raw) of
            Some acts \<Rightarrow>
              r_actions r = acts \<and> r_committed_text r = [] \<and>
              r_text r = normalize_mixed_spacing raw
          | None \<Rightarrow>
              r_text r = normalize_final raw \<and> r_committed_text r = normalize_final raw \<and>
              r_actions r =
                (if normalize_final raw = [] then [] else [Insert (normalize_final raw)])))) \<and>
   command_actions (normalize_mixed_spacing [25442, 34892]) = Some [Insert [10]]"
proof -
  have a: "\<exists>r s'. push_session engine is_speech sid s0 audio = (Ok r, s') \<and> r_kind r = KFinal \<and>
         (case command_actions (normalize_mixed_spacing raw) of
            Some acts \<Rightarrow>
              r_actions r = acts \<and> r_committed_text r = [] \<and>
              r_text r = normalize_mixed_spacing raw
          | None \<Rightarrow>
              r_text r = normalize_final raw \<and> r_committed_text r = normalize_final raw \<and>
              r_actions r =
                (if normalize_final raw = [] then [] else [Insert (normalize_final raw)]))"
    if h: "push_audio is_speech audio s0 = ((True, sp, si), s1)"
      "engine (buffer_f32 s1) (sample_rate_hz s1) (language s1) (prompt s1) = Inr raw"
  proof (cases "command_actions (normalize_mixed_spacing raw)")
    case None
    show ?thesis
      unfolding push_session_final_insert [where engine = engine and sid = sid, OF h None]
      using None by simp
  next
    case (Some acts)
    show ?thesis
      unfolding push_session_final_command [where engine = engine and sid = sid, OF h Some]
      using Some by simp
  qed
  have b: "command_actions (normalize_mixed_spacing [25442, 34892]) = Some [Insert [10]]"
    by (simp only: spacing_newline command_actions_newline)
  from a b show ?thesis by auto
qed

theorem command_insert_disjoint_witness:
  "\<exists>r s'. push_session (\<lambda>a r l p. Inr [25442, 34892]) (\<lambda>fr. 1 \<in> set fr) [1]
        (new_session 16000 None None 500 20 300 30) (replicate 480 (1::nat) @ replicate 480 0) =
      (Ok r, s') \<and>
      r_kind r = KFinal \<and> r_actions r = [Insert [10]] \<and> r_committed_text r = [] \<and>
      r_text r = [25442, 34892]"
proof -
  have "\<exists>r s'. push_session (\<lambda>a r l p. Inr [25442, 34892]) (\<lambda>fr. 1 \<in> set fr) [1]
        (new_session 16000 None None 500 20 300 30) (replicate 480 (1::nat) @ replicate 480 0) =
      (Ok r, s') \<and> r_kind r = KFinal \<and>
      (case command_actions (normalize_mixed_spacing [25442, 34892]) of
         Some acts \<Rightarrow>
           r_actions r = acts \<and> r_committed_text r = [] \<and>
           r_text r = normalize_mixed_spacing [25442, 34892]
       | None \<Rightarrow>
           r_text r = normalize_final [25442, 34892] \<and>
           r_committed_text r = normalize_final [25442, 34892] \<and>
           r_actions r =
             (if normalize_final [25442, 34892] = [] then []
              else [Insert (normalize_final [25442, 34892])]))"
    apply (rule command_insert_disjoint [where phrase = "[]"
          and is_speech = "\<lambda>fr. 1 \<in> set fr"
          and audio = "replicate 480 (1::nat) @ replicate 480 0"
          and ?s0.0 = "new_session 16000 None None 500 20 300 30" and sp = 1 and si = 1
          and ?s1.0 = "(new_session 16000 None None 500 20 300 30)
             \<lparr>buffer_f32 := replicate 480 1 @ replicate 480 0, speech_frames := 1,
               silence_frames := 1\<rparr>"
          and engine = "\<lambda>a r l p. Inr [25442, 34892]" and raw = "[25442, 34892]" and sid = "[1]",
          THEN conjunct2, THEN conjunct2, THEN conjunct1, THEN mp])
    apply (intro conjI)
     apply (rule push_audio_example)
    apply (rule refl)
    done
  then show ?thesis
    by (simp only: spacing_newline command_actions_newline option.case)
qed

section \<open>Properties of the partial stabilizer\<close>

lemma push_step:
  assumes run: "push_session engine v sid s0 audio = (resp, s')"
  shows "(is_final resp \<and> committed_prefix s' = [] \<and> last_emitted_text s' = []) \<or>
         (\<not> is_final resp \<and>
          prefix (committed_prefix s0) (committed_prefix s') \<and>
          (prefix_inv s0 \<longrightarrow> prefix_inv s') \<and>
          (\<forall>r. resp = Ok r \<and> r_kind r = KPartial \<longrightarrow>
               r_text r = last_emitted_text s' \<and> r_stable_prefix r = committed_prefix s' \<and>
               prefix (r_stable_prefix r) (r_text r)))"
proof -
  obtain ep sp si where pa: "push_audio v audio s0 =
       ((ep, sp, si), s0\<lparr>buffer_f32 := buffer_f32 s0 @ audio, speech_frames := sp, silence_frames := si\<rparr>)"
    using push_audio_state by blast
  let ?s1 = "s0\<lparr>buffer_f32 := buffer_f32 s0 @ audio, speech_frames := sp, silence_frames := si\<rparr>"
  have c1: "committed_prefix ?s1 = committed_prefix s0" "last_emitted_text ?s1 = last_emitted_text s0"
    by simp_all
  from push_session_cases [OF run pa]
  consider (raise) msg where "resp = Err (Raised msg)" "s' = ?s1"
    | (final) r where "resp = Ok r" "r_kind r = KFinal"
        "s' = reset_current_utterance (if r_text r \<noteq> [] then ?s1\<lparr>segments_text := r_text r\<rparr> else ?s1)"
    | (none) r where "resp = Ok r" "r_kind r = KNone"
        "s' = ?s1 \<or> s' = ?s1\<lparr>last_partial_samples := int (length (buffer_f32 ?s1))\<rparr>"
    | (emit) r hyp where "resp = Ok r" "hyp \<noteq> []" "r_kind r \<noteq> KFinal"
        "s' = (stabilize hyp ?s1)
                \<lparr>last_emitted_text :=
                   committed_prefix (stabilize hyp ?s1) @
                   drop (length (committed_prefix (stabilize hyp ?s1))) hyp,
                 last_partial_samples := int (length (buffer_f32 ?s1))\<rparr>"
        "r_stable_prefix r = committed_prefix (stabilize hyp ?s1)"
        "r_kind r = KPartial \<longrightarrow> r_text r = last_emitted_text s'"
    by blast
  then show ?thesis
  proof cases
    case raise
    then show ?thesis using c1 by (simp add: is_final_def prefix_inv_def)
  next
    case final
    have "committed_prefix s' = []" "last_emitted_text s' = []"
      unfolding final(3) by (simp_all add: reset_current_utterance_def)
    then show ?thesis using final by (simp add: is_final_def)
  next
    case none
    from none(3) have "committed_prefix s' = committed_prefix s0"
      "last_emitted_text s' = last_emitted_text s0"
      by auto
    then show ?thesis using none(1,2) by (simp add: is_final_def prefix_inv_def)
  next
    case emit
    let ?c = "committed_prefix (stabilize hyp ?s1)"
    have cs: "committed_prefix s' = ?c" unfolding emit(4) by simp
    have le: "last_emitted_text s' = ?c @ drop (length ?c) hyp" unfolding emit(4) by simp
    have p: "prefix (committed_prefix s0) ?c"
      using stabilize_committed [of hyp ?s1] c1 by auto
    have inv: "prefix_inv s'" by (simp add: prefix_inv_def cs le)
    show ?thesis
      using emit(1,3,5,6) cs le p inv by (simp add: is_final_def prefix_inv_def)
  qed
qed

lemma trace_inv:
  "prefix_inv s0 \<Longrightarrow>
   \<forall>out \<in> set (push_trace engine v sid s0 chunks).
     prefix_inv (snd out) \<and>
     (\<forall>r. fst out = Ok r \<and> r_kind r = KPartial \<longrightarrow>
          r_text r = last_emitted_text (snd out) \<and>
          r_stable_prefix r = committed_prefix (snd out) \<and>
          prefix (r_stable_prefix r) (r_text r))"
proof (induction chunks arbitrary: s0)
  case Nil
  show ?case by simp
next
  case (Cons a rest)
  obtain resp s' where ps: "push_session engine v sid s0 a = (resp, s')"
    by (cases "push_session engine v sid s0 a")
  from push_step [OF ps] Cons.prems have inv: "prefix_inv s'"
    by (auto simp: prefix_inv_def)
  from push_step [OF ps] have link: "\<forall>r. resp = Ok r \<and> r_kind r = KPartial \<longrightarrow>
          r_text r = last_emitted_text s' \<and> r_stable_prefix r = committed_prefix s' \<and>
          prefix (r_stable_prefix r) (r_text r)"
    by (auto simp: is_final_def)
  have "push_trace engine v sid s0 (a # rest) = (resp, s') # push_trace engine v sid s' rest"
    by (simp add: ps Let_def)
  then show ?case using Cons.IH [OF inv] inv link by (auto simp: prefix_inv_def)
qed

lemma trace_mono:
  "\<forall>out \<in> set (push_trace engine v sid s0 chunks). \<not> is_final (fst out) \<Longrightarrow>
   \<forall>out \<in> set (push_trace engine v sid s0 chunks).
     prefix (committed_prefix s0) (committed_prefix (snd out))"
proof (induction chunks arbitrary: s0)
  case Nil
  show ?case by simp
next
  case (Cons a rest)
  obtain resp s' where ps: "push_session engine v sid s0 a = (resp, s')"
    by (cases "push_session engine v sid s0 a")
  have nf: "\<not> is_final resp"
    and rest: "\<forall>out \<in> set (push_trace engine v sid s' rest). \<not> is_final (fst out)"
    using Cons.prems by (simp_all add: ps Let_def)
  from push_step [OF ps] nf have p: "prefix (committed_prefix s0) (committed_prefix s')"
    by auto
  have "\<forall>out \<in> set (push_trace engine v sid s' rest).
          prefix (committed_prefix s0) (committed_prefix (snd out))"
    using Cons.IH [OF rest] p by (meson prefix_order.trans)
  then show ?case using p by (simp add: ps Let_def)
qed

lemma trace_sorted:
  "\<forall>out \<in> set (push_trace engine v sid s0 chunks). \<not> is_final (fst out) \<Longrightarrow>
   sorted_wrt (\<lambda>a b. prefix (committed_prefix a) (committed_prefix b))
     (s0 # map snd (push_trace engine v sid s0 chunks))"
proof (induction chunks arbitrary: s0)
  case Nil
  show ?case by simp
next
  case (Cons a rest)
  obtain resp s' where ps: "push_session engine v sid s0 a = (resp, s')"
    by (cases "push_session engine v sid s0 a")
  have rest: "\<forall>out \<in> set (push_trace engine v sid s' rest). \<not> is_final (fst out)"
    using Cons.prems by (simp_all add: ps Let_def)
  have "\<forall>x \<in> set (map snd (push_trace engine v sid s0 (a # rest))).
          prefix (committed_prefix s0) (committed_prefix x)"
    using trace_mono [OF Cons.prems] by auto
  moreover have "sorted_wrt (\<lambda>a b. prefix (committed_prefix a) (committed_prefix b))
     (map snd (push_trace engine v sid s0 (a # rest)))"
    using Cons.IH [OF rest] by (simp add: ps Let_def)
  ultimately show ?case by simp
qed


text \<open>
  C2 (prefix monotonicity). Take a session whose committed prefix is a prefix of its last
  emitted text (as after construction and after every reset) and any sequence of pushes
  none of which ends the utterance. Then along the states of the session the committed
  prefix only grows: each is a literal prefix of every later one, and no longer than it.
  After every push the committed prefix is a literal prefix of the last emitted text,
  and a partial response carries exactly that text and that prefix. The stabilizer
  replaces the committed prefix only by a candidate that is strictly longer and has the
  committed prefix as a literal prefix; any other candidate leaves it as it is.
\<close>

theorem prefix_monotonicity:
  assumes "prefix (committed_prefix s0) (last_emitted_text s0)"
    and "\<forall>out \<in> set (push_trace engine is_speech sid s0 chunks). \<not> is_final (fst out)"
  shows
    "sorted_wrt (\<lambda>a b. prefix (committed_prefix a) (committed_prefix b) \<and>
                       length (committed_prefix a) \<le> length (committed_prefix b))
       (s0 # map snd (push_trace engine is_speech sid s0 chunks)) \<and>
     (\<forall>out \<in> set (push_trace engine is_speech sid s0 chunks).
        prefix (committed_prefix (snd out)) (last_emitted_text (snd out)) \<and>
        (\<forall>r. fst out = Ok r \<and> r_kind r = KPartial \<longrightarrow>
             r_text r = last_emitted_text (snd out) \<and>
             r_stable_prefix r = committed_prefix (snd out) \<and>
             prefix (r_stable_prefix r) (r_text r))) \<and>
     (\<forall>hyp s. committed_prefix (stabilize hyp (s :: 'a stream_session)) = committed_prefix s \<or>
        (committed_prefix (stabilize hyp s) = boundary_prefix hyp \<and>
         strict_prefix (committed_prefix s) (boundary_prefix hyp) \<and>
         length (committed_prefix s) < length (boundary_prefix hyp)))"
proof -
  have a: "sorted_wrt (\<lambda>a b. prefix (committed_prefix a) (committed_prefix b) \<and>
                       length (committed_prefix a) \<le> length (committed_prefix b))
       (s0 # map snd (push_trace engine is_speech sid s0 chunks))"
    by (rule sorted_wrt_mono_rel [OF _ trace_sorted [OF assms(2)]]) (simp add: prefix_length_le)
  have inv: "prefix_inv s0" using assms(1) by (simp add: prefix_inv_def)
  have b: "\<forall>out \<in> set (push_trace engine is_speech sid s0 chunks).
        prefix (committed_prefix (snd out)) (last_emitted_text (snd out)) \<and>
        (\<forall>r. fst out = Ok r \<and> r_kind r = KPartial \<longrightarrow>
             r_text r = last_emitted_text (snd out) \<and>
             r_stable_prefix r = committed_prefix (snd out) \<and>
             prefix (r_stable_prefix r) (r_text r))"
    using trace_inv [OF inv, of engine is_speech sid chunks] by (simp add: prefix_inv_def)
  have c: "committed_prefix (stabilize hyp s) = committed_prefix s \<or>
        (committed_prefix (stabilize hyp s) = boundary_prefix hyp \<and>
         strict_prefix (committed_prefix s) (boundary_prefix hyp) \<and>
         length (committed_prefix s) < length (boundary_prefix hyp))"
    for hyp and s :: "'a stream_session"
    using stabilize_committed [of hyp s] by (auto simp: strict_prefix_def)
  from a b c show ?thesis by blast
qed

text \<open>
  The scenario of the specification: the hypotheses U+4F60 U+597D, then twice the same
  with a full-width comma. The third push commits the prefix that ends in the comma.
\<close>

lemma speech_push_audio:
  assumes "sample_rate_hz s = 16000" "frame_ms s = 30"
  shows "push_audio (\<lambda>fr. 5 \<in> set fr) (replicate 480 (5::nat)) s =
     ((False, speech_frames s + 1, 0),
      s\<lparr>buffer_f32 := buffer_f32 s @ replicate 480 5, speech_frames := speech_frames s + 1,
        silence_frames := 0\<rparr>)"
proof -
  let ?a = "replicate 480 (5::nat)"
  have fl: "ms_to_samples (sample_rate_hz s) (frame_ms s) = 480"
    by (simp add: assms ms_to_samples_def)
  have ne: "?a \<noteq> []" by simp
  have l: "length ?a div 480 = 1" "length ?a mod 480 = 0" by simp_all
  have r: "reshape 1 480 (drop 0 ?a) = [?a]" by simp
  have v: "vad_loop (\<lambda>fr. 5 \<in> set fr) [?a] False (s\<lparr>buffer_f32 := buffer_f32 s @ ?a\<rparr>) =
           (False, s\<lparr>buffer_f32 := buffer_f32 s @ ?a, speech_frames := speech_frames s + 1,
                     silence_frames := 0\<rparr>)"
    by simp
  show ?thesis
    using push_audio_frames [OF ne, of s "\<lambda>fr. 5 \<in> set fr"]
    unfolding fl by (simp only: nat_numeral l r v prod.case) simp
qed

lemma common_prefix_len_unique:
  assumes "take n a = take n b" "n \<le> length a" "n \<le> length b"
    and "n < length a \<and> n < length b \<longrightarrow> a ! n \<noteq> b ! n"
  shows "common_prefix_len a b = n"
proof (rule antisym)
  show "n \<le> common_prefix_len a b" using assms(1-3) by (rule common_prefix_len_greatest)
  show "common_prefix_len a b \<le> n"
  proof (rule ccontr)
    assume "\<not> common_prefix_len a b \<le> n"
    then have lt: "n < common_prefix_len a b" by simp
    then have "n < length a" "n < length b"
      using common_prefix_len_le [of a b] by auto
    moreover have "take (common_prefix_len a b) a ! n = take (common_prefix_len a b) b ! n"
      by (metis common_prefix_len_take)
    ultimately show False using assms(4) lt by simp
  qed
qed

lemma common_prefix_len_Nil [simp]:
  "common_prefix_len [] b = 0" "common_prefix_len a [] = 0"
  by (rule common_prefix_len_unique; simp)+

lemma common_prefix_len_Cons [simp]:
  "common_prefix_len (x # xs) (y # ys) = (if x = y then Suc (common_prefix_len xs ys) else 0)"
proof (cases "x = y")
  case False
  then show ?thesis by (simp add: common_prefix_len_unique)
next
  case True
  have "common_prefix_len (x # xs) (y # ys) = Suc (common_prefix_len xs ys)"
    using True common_prefix_len_le [of xs ys] common_prefix_len_take [of xs ys]
      common_prefix_len_stop [of xs ys]
    by (intro common_prefix_len_unique) auto
  then show ?thesis using True by simp
qed

lemmas partial_defs = partial_phase_def emit_partial_def stabilize_def boundary_prefix_def
  boundary_chars_def diff_def init_result_def
  compose_actions_def ms_to_samples_def Let_def

lemma scenario_push1:
  "push_session (\<lambda>a r l p. if length a < 960 then Inr [20320, 22909] else Inr [20320, 22909, 65292])
     (\<lambda>fr. 5 \<in> set fr) [115] (new_session 16000 None None 30 20 30 450) (replicate 480 (5::nat)) =
   (Ok \<lparr>r_session_id = [115], r_endpoint = False, r_speech_frames = 1, r_silence_frames = 0,
        r_text = [20320, 22909], r_final = False, r_kind = KPartial, r_committed_text = [],
        r_actions = [SetComposition [20320, 22909]], r_stable_prefix = [],
        r_unstable_suffix = [20320, 22909], r_delta_from = 0, r_delta_delete = 0,
        r_delta_insert = [20320, 22909]\<rparr>,
    (new_session 16000 None None 30 20 30 450)
      \<lparr>buffer_f32 := replicate 480 5, speech_frames := 1, last_emitted_text := [20320, 22909],
        last_partial_samples := 480\<rparr>)"
proof -
  let ?s = "new_session 16000 None None 30 20 30 450 :: nat stream_session"
  have c: "sample_rate_hz ?s = 16000" "frame_ms ?s = 30" by (simp_all add: new_session_def)
  show ?thesis
    unfolding push_session_no_endpoint [OF speech_push_audio [OF c]]
    by (simp add: new_session_def partial_defs)
qed


lemma scenario_push2:
  "push_session (\<lambda>a r l p. if length a < 960 then Inr [20320, 22909] else Inr [20320, 22909, 65292])
     (\<lambda>fr. 5 \<in> set fr) [115]
     ((new_session 16000 None None 30 20 30 450)
        \<lparr>buffer_f32 := replicate 480 (5::nat), speech_frames := 1,
          last_emitted_text := [20320, 22909], last_partial_samples := 480\<rparr>)
     (replicate 480 5) =
   (Ok \<lparr>r_session_id = [115], r_endpoint = False, r_speech_frames = 2, r_silence_frames = 0,
        r_text = [20320, 22909, 65292], r_final = False, r_kind = KPartial,
        r_committed_text = [], r_actions = [SetComposition [20320, 22909, 65292]],
        r_stable_prefix = [], r_unstable_suffix = [20320, 22909, 65292], r_delta_from = 2,
        r_delta_delete = 0, r_delta_insert = [65292]\<rparr>,
    (new_session 16000 None None 30 20 30 450)
      \<lparr>buffer_f32 := replicate 480 5 @ replicate 480 5, speech_frames := 2,
        last_emitted_text := [20320, 22909, 65292], last_partial_samples := 960,
        last_prefix_candidate := [20320, 22909, 65292], prefix_streak := 1\<rparr>)"
proof -
  let ?s = "(new_session 16000 None None 30 20 30 450 :: nat stream_session)
        \<lparr>buffer_f32 := replicate 480 (5::nat), speech_frames := 1,
          last_emitted_text := [20320, 22909], last_partial_samples := 480\<rparr>"
  have c: "sample_rate_hz ?s = 16000" "frame_ms ?s = 30" by (simp_all add: new_session_def)
  show ?thesis
    unfolding push_session_no_endpoint [OF speech_push_audio [OF c]]
    by (simp add: new_session_def partial_defs)
qed

lemma scenario_push3:
  "push_session (\<lambda>a r l p. if length a < 960 then Inr [20320, 22909] else Inr [20320, 22909, 65292])
     (\<lambda>fr. 5 \<in> set fr) [115]
     ((new_session 16000 None None 30 20 30 450)
      \<lparr>buffer_f32 := replicate 480 (5::nat) @ replicate 480 5, speech_frames := 2,
        last_emitted_text := [20320, 22909, 65292], last_partial_samples := 960,
        last_prefix_candidate := [20320, 22909, 65292], prefix_streak := 1\<rparr>)
     (replicate 480 5) =
   (Ok \<lparr>r_session_id = [115], r_endpoint = False, r_speech_frames = 3, r_silence_frames = 0,
        r_text = [], r_final = False, r_kind = KNone,
        r_committed_text = [], r_actions = [],
        r_stable_prefix = [20320, 22909, 65292], r_unstable_suffix = [], r_delta_from = 3,
        r_delta_delete = 0, r_delta_insert = []\<rparr>,
    (new_session 16000 None None 30 20 30 450)
      \<lparr>buffer_f32 := (replicate 480 5 @ replicate 480 5) @ replicate 480 5, speech_frames := 3,
        last_emitted_text := [20320, 22909, 65292], last_partial_samples := 1440,
        last_prefix_candidate := [20320, 22909, 65292], prefix_streak := 2,
        committed_prefix := [20320, 22909, 65292]\<rparr>)"
proof -
  let ?s = "(new_session 16000 None None 30 20 30 450 :: nat stream_session)
      \<lparr>buffer_f32 := replicate 480 (5::nat) @ replicate 480 5, speech_frames := 2,
        last_emitted_text := [20320, 22909, 65292], last_partial_samples := 960,
        last_prefix_candidate := [20320, 22909, 65292], prefix_streak := 1\<rparr>"
  have c: "sample_rate_hz ?s = 16000" "frame_ms ?s = 30" by (simp_all add: new_session_def)
  show ?thesis
    unfolding push_session_no_endpoint [OF speech_push_audio [OF c]]
    by (simp add: new_session_def partial_defs)
qed

lemma scenario_trace:
  "map (\<lambda>out. (is_final (fst out), committed_prefix (snd out), last_emitted_text (snd out)))
     (push_trace (\<lambda>a r l p. if length a < 960 then Inr [20320, 22909] else Inr [20320, 22909, 65292])
        (\<lambda>fr. 5 \<in> set fr) [115] (new_session 16000 None None 30 20 30 450)
        [replicate 480 (5::nat), replicate 480 5, replicate 480 5]) =
   [(False, [], [20320, 22909]), (False, [], [20320, 22909, 65292]),
    (False, [20320, 22909, 65292], [20320, 22909, 65292])]"
  by (simp add: Let_def scenario_push1 scenario_push2 scenario_push3 is_final_def)
    (simp add: new_session_def)


theorem prefix_monotonicity_witness:
  "map (\<lambda>s. committed_prefix s)
     (new_session 16000 None None 30 20 30 450 #
      map snd (push_trace (\<lambda>a r l p. if length a < 960 then Inr [20320, 22909] else Inr [20320, 22909, 65292])
        (\<lambda>fr. 5 \<in> set fr) [115] (new_session 16000 None None 30 20 30 450)
        [replicate 480 (5::nat), replicate 480 5, replicate 480 5])) =
     [[], [], [], [20320, 22909, 65292]] \<and>
   sorted_wrt (\<lambda>a b. prefix (committed_prefix a) (committed_prefix b) \<and>
                       length (committed_prefix a) \<le> length (committed_prefix b))
     (new_session 16000 None None 30 20 30 450 #
      map snd (push_trace (\<lambda>a r l p. if length a < 960 then Inr [20320, 22909] else Inr [20320, 22909, 65292])
        (\<lambda>fr. 5 \<in> set fr) [115] (new_session 16000 None None 30 20 30 450)
        [replicate 480 (5::nat), replicate 480 5, replicate 480 5]))"
proof -
  let ?s0 = "new_session 16000 None None 30 20 30 450 :: nat stream_session"
  let ?tr = "push_trace (\<lambda>a r l p. if length a < 960 then Inr [20320, 22909] else Inr [20320, 22909, 65292])
        (\<lambda>fr. 5 \<in> set fr) [115] ?s0 [replicate 480 (5::nat), replicate 480 5, replicate 480 5]"
  have h1: "prefix (committed_prefix ?s0) (last_emitted_text ?s0)"
    by (simp add: new_session_def)
  have "\<forall>x \<in> set (map (\<lambda>out. (is_final (fst out), committed_prefix (snd out),
                 last_emitted_text (snd out))) ?tr). \<not> fst x"
    unfolding scenario_trace by simp
  then have h2: "\<forall>out \<in> set ?tr. \<not> is_final (fst out)" by simp
  have "map (\<lambda>x. fst (snd x)) (map (\<lambda>out. (is_final (fst out), committed_prefix (snd out),
                 last_emitted_text (snd out))) ?tr) = [[], [], [20320, 22909, 65292]]"
    unfolding scenario_trace by simp
  then have c: "map (\<lambda>s. committed_prefix s) (?s0 # map snd ?tr) = [[], [], [], [20320, 22909, 65292]]"
    by (simp add: comp_def new_session_def)
  from prefix_monotonicity [OF h1 h2] c show ?thesis by blast
qed

end
